theory Spec2Isabelle
  imports Complex_Main "HOL-Library.Sublist"
begin

section \<open>JavaScript strings\<close>

text \<open>
  A JavaScript string is a sequence of UTF-16 code units. It is modelled as a \<open>string\<close>,
  one \<open>char\<close> per code unit, over an alphabet of 256 code units that is closed under the
  conversions the program applies: \<open>CHR n\<close> is the code unit \<open>n\<close> for \<open>n < 0x80\<close> and for
  \<open>0x83 \<le> n \<le> 0xFF\<close> (ASCII and Latin-1, with the no-break space \<open>0xA0\<close>), and \<open>CHR 0x80\<close>,
  \<open>CHR 0x81\<close>, \<open>CHR 0x82\<close> are U+0178, U+039C and U+03BC, the code units outside Latin-1
  that the case conversions of Latin-1 characters reach (the upper case of U+00FF, the
  upper case of U+00B5, and the lower case of the latter). On this alphabet the functions
  below are those of the language:

  \<^item> \<open>toLowerCase\<close> maps \<open>A\<close>-\<open>Z\<close> and U+00C0-U+00DE, except the multiplication sign U+00D7, to
    the code unit \<open>0x20\<close> above, U+0178 to U+00FF and U+039C to U+03BC, and leaves every
    other code unit as it is;
  \<^item> \<open>toUpperCase\<close> of a single code unit maps \<open>a\<close>-\<open>z\<close> and U+00E0-U+00FE, except the division
    sign U+00F7, to the code unit \<open>0x20\<close> below, U+00FF to U+0178, U+00B5 and U+03BC to
    U+039C, the sharp s U+00DF to the two code units \<open>SS\<close>, and leaves every other code unit
    as it is;
  \<^item> \<open>trim\<close> removes, at both ends, the white space and line terminators: tab, line feed,
    vertical tab, form feed, carriage return, space and no-break space.
\<close>

definition upper_letters :: string where
  "upper_letters = ''ABCDEFGHIJKLMNOPQRSTUVWXYZ'' @
     [CHR 0xC0, CHR 0xC1, CHR 0xC2, CHR 0xC3, CHR 0xC4, CHR 0xC5, CHR 0xC6, CHR 0xC7,
      CHR 0xC8, CHR 0xC9, CHR 0xCA, CHR 0xCB, CHR 0xCC, CHR 0xCD, CHR 0xCE, CHR 0xCF,
      CHR 0xD0, CHR 0xD1, CHR 0xD2, CHR 0xD3, CHR 0xD4, CHR 0xD5, CHR 0xD6,
      CHR 0xD8, CHR 0xD9, CHR 0xDA, CHR 0xDB, CHR 0xDC, CHR 0xDD, CHR 0xDE]"

definition lower_letters :: string where
  "lower_letters = ''abcdefghijklmnopqrstuvwxyz'' @
     [CHR 0xE0, CHR 0xE1, CHR 0xE2, CHR 0xE3, CHR 0xE4, CHR 0xE5, CHR 0xE6, CHR 0xE7,
      CHR 0xE8, CHR 0xE9, CHR 0xEA, CHR 0xEB, CHR 0xEC, CHR 0xED, CHR 0xEE, CHR 0xEF,
      CHR 0xF0, CHR 0xF1, CHR 0xF2, CHR 0xF3, CHR 0xF4, CHR 0xF5, CHR 0xF6,
      CHR 0xF8, CHR 0xF9, CHR 0xFA, CHR 0xFB, CHR 0xFC, CHR 0xFD, CHR 0xFE]"

definition lower_char :: "char \<Rightarrow> char" where
  "lower_char c =
     (case map_of (zip upper_letters lower_letters @
                   [(CHR 0x80, CHR 0xFF), (CHR 0x81, CHR 0x82)]) c of
        Some d \<Rightarrow> d
      | None \<Rightarrow> c)"

definition upper_char :: "char \<Rightarrow> string" where
  "upper_char c =
     (case map_of (zip lower_letters (map (\<lambda>u. [u]) upper_letters) @
                   [(CHR 0xFF, [CHR 0x80]), (CHR 0xB5, [CHR 0x81]), (CHR 0x82, [CHR 0x81]),
                    (CHR 0xDF, ''SS'')]) c of
        Some s \<Rightarrow> s
      | None \<Rightarrow> [c])"

definition toLowerCase :: "string \<Rightarrow> string" where
  "toLowerCase s = map lower_char s"

definition white_space :: "char list" where
  "white_space = [CHR 0x09, CHR 0x0A, CHR 0x0B, CHR 0x0C, CHR 0x0D, CHR '' '', CHR 0xA0]"

definition is_space :: "char \<Rightarrow> bool" where
  "is_space c = (c \<in> set white_space)"

definition trim :: "string \<Rightarrow> string" where
  "trim s = rev (dropWhile is_space (rev (dropWhile is_space s)))"

text \<open>\<open>s.includes(k)\<close>: \<open>k\<close> occurs in \<open>s\<close> as a contiguous run of code units.\<close>

fun str_includes :: "string \<Rightarrow> string \<Rightarrow> bool" where
  "str_includes [] k = (k = [])"
| "str_includes (c # cs) k = (prefix k (c # cs) \<or> str_includes cs k)"

text \<open>\<open>s.charAt(0).toUpperCase() + s.slice(1)\<close>; on the empty string both parts are empty.\<close>

fun capitalize :: "string \<Rightarrow> string" where
  "capitalize [] = []"
| "capitalize (c # cs) = upper_char c @ cs"

section \<open>Label normalisation and extraction (emotion-fusion)\<close>

definition STANDARD_EMOTIONS :: "string list" where
  "STANDARD_EMOTIONS =
     [''Happy'', ''Sad'', ''Angry'', ''Fearful'', ''Surprised'', ''Disgusted'',
      ''Neutral'', ''Anxious'', ''Excited'', ''Calm'', ''Frustrated'', ''Confused'']"

definition normalizeEmotion :: "string \<Rightarrow> string" where
  "normalizeEmotion emotion =
     (let normalized = trim emotion in
      case find (\<lambda>std. toLowerCase std = toLowerCase normalized) STANDARD_EMOTIONS of
        Some match \<Rightarrow> match
      | None \<Rightarrow>
         (let lowerEmotion = toLowerCase normalized in
          if str_includes lowerEmotion ''happ'' \<or> str_includes lowerEmotion ''joy'' then ''Happy''
          else if str_includes lowerEmotion ''sad'' \<or> str_includes lowerEmotion ''depress'' then ''Sad''
          else if str_includes lowerEmotion ''ang'' \<or> str_includes lowerEmotion ''mad'' then ''Angry''
          else if str_includes lowerEmotion ''fear'' \<or> str_includes lowerEmotion ''scared'' then ''Fearful''
          else if str_includes lowerEmotion ''surpris'' \<or> str_includes lowerEmotion ''shock'' then ''Surprised''
          else if str_includes lowerEmotion ''disgust'' then ''Disgusted''
          else if str_includes lowerEmotion ''neutr'' \<or> str_includes lowerEmotion ''calm'' then ''Neutral''
          else if str_includes lowerEmotion ''anxi'' \<or> str_includes lowerEmotion ''worr'' then ''Anxious''
          else if str_includes lowerEmotion ''excit'' then ''Excited''
          else if str_includes lowerEmotion ''frustrat'' then ''Frustrated''
          else if str_includes lowerEmotion ''confus'' then ''Confused''
          else capitalize normalized))"

text \<open>\<open>null\<close> is \<open>None\<close>. The guard \<open>!text\<close> holds of the empty string only.\<close>

definition extractEmotionFromText :: "string \<Rightarrow> string option" where
  "extractEmotionFromText text =
     (if text = [] then None
      else
        (let lowerText = toLowerCase text in
         case find (\<lambda>emotion. str_includes lowerText (toLowerCase emotion)) STANDARD_EMOTIONS of
           Some emotion \<Rightarrow> Some emotion
         | None \<Rightarrow>
            (if str_includes lowerText ''happy'' \<or> str_includes lowerText ''joy'' then Some ''Happy''
             else if str_includes lowerText ''sad'' \<or> str_includes lowerText ''unhappy'' then Some ''Sad''
             else if str_includes lowerText ''angry'' \<or> str_includes lowerText ''upset'' then Some ''Angry''
             else if str_includes lowerText ''afraid'' \<or> str_includes lowerText ''scared'' then Some ''Fearful''
             else if str_includes lowerText ''surprised'' \<or> str_includes lowerText ''amazed'' then Some ''Surprised''
             else if str_includes lowerText ''disgusted'' then Some ''Disgusted''
             else if str_includes lowerText ''neutral'' \<or> str_includes lowerText ''calm'' then Some ''Neutral''
             else if str_includes lowerText ''anxious'' \<or> str_includes lowerText ''worried'' then Some ''Anxious''
             else if str_includes lowerText ''excited'' then Some ''Excited''
             else if str_includes lowerText ''frustrated'' then Some ''Frustrated''
             else if str_includes lowerText ''confused'' then Some ''Confused''
             else None)))"

section \<open>Plain JavaScript objects used as string-keyed records\<close>

text \<open>
  The program keeps its accumulators in object literals (\<open>Record<string, T> = {}\<close>).
  Such an object is modelled by the list of its own properties in the order of their
  creation. Three facts of the language are part of the model, because the program's
  results depend on them:
  \<^item> \<open>Object.entries\<close> and \<open>Object.values\<close> list the keys that are array indices first,
    in ascending numeric order, and then the other keys in the order of creation;
  \<^item> a read \<open>obj[k]\<close> of a key that is not an own property finds the property of that
    name of \<open>Object.prototype\<close>, when there is one;
  \<^item> \<open>__proto__\<close> is an accessor: assigning a string or a number to it changes nothing.
\<close>

type_synonym 'v js_object = "(string \<times> 'v) list"

definition OBJECT_PROTOTYPE_KEYS :: "string list" where
  "OBJECT_PROTOTYPE_KEYS =
     [''constructor'', ''__defineGetter__'', ''__defineSetter__'', ''hasOwnProperty'',
      ''__lookupGetter__'', ''__lookupSetter__'', ''isPrototypeOf'', ''propertyIsEnumerable'',
      ''toString'', ''valueOf'', ''__proto__'', ''toLocaleString'']"

definition is_digit :: "char \<Rightarrow> bool" where
  "is_digit c = (c \<in> set ''0123456789'')"

definition digit_value :: "char \<Rightarrow> nat" where
  "digit_value c = (case map_of (zip ''0123456789'' [0, 1, 2, 3, 4, 5, 6, 7, 8, 9]) c of
                      Some d \<Rightarrow> d | None \<Rightarrow> 0)"

definition decimal :: "string \<Rightarrow> nat" where
  "decimal k = foldl (\<lambda>n c. 10 * n + digit_value c) 0 k"

text \<open>The canonical decimal numerals: no sign, no leading zero except in \<open>0\<close> itself.\<close>

fun canonical_numeral :: "string \<Rightarrow> bool" where
  "canonical_numeral [] = False"
| "canonical_numeral [c] = is_digit c"
| "canonical_numeral (c # cs) = (is_digit c \<and> c \<noteq> CHR ''0'' \<and> list_all is_digit cs)"

text \<open>An array index is the canonical numeral of an integer below \<open>2^32 - 1\<close>.\<close>

definition is_array_index :: "string \<Rightarrow> bool" where
  "is_array_index k = (canonical_numeral k \<and> decimal k < 4294967295)"

datatype 'v js_lookup = Own 'v | Inherited | Undefined

definition obj_get :: "'v js_object \<Rightarrow> string \<Rightarrow> 'v js_lookup" where
  "obj_get obj k =
     (case map_of obj k of
        Some v \<Rightarrow> Own v
      | None \<Rightarrow> if k \<in> set OBJECT_PROTOTYPE_KEYS then Inherited else Undefined)"

text \<open>
  \<open>obj[k] = v\<close> for a primitive or array \<open>v\<close>: an own property keeps its place, a new key is
  created last. The inherited properties other than \<open>__proto__\<close> are writable data
  properties, so that assigning to their names creates an own property.
\<close>

definition obj_set :: "'v js_object \<Rightarrow> string \<Rightarrow> 'v \<Rightarrow> 'v js_object" where
  "obj_set obj k v =
     (if k = ''__proto__'' then obj
      else if k \<in> fst ` set obj then map (\<lambda>e. if fst e = k then (k, v) else e) obj
      else obj @ [(k, v)])"

definition Object_entries :: "'v js_object \<Rightarrow> (string \<times> 'v) list" where
  "Object_entries obj =
     sort_key (\<lambda>(k, v). decimal k) (filter (\<lambda>(k, v). is_array_index k) obj)
     @ filter (\<lambda>(k, v). \<not> is_array_index k) obj"

definition Object_values :: "'v js_object \<Rightarrow> 'v list" where
  "Object_values obj = map snd (Object_entries obj)"

section \<open>Fusion of the three channels (emotion-fusion)\<close>

text \<open>
  The numbers of the fusion are modelled as real numbers, a real standing for the double
  nearest to it. The fusion forms few numbers, and on them the reals and the doubles
  agree in this sense: the weights \<open>0.5\<close>, \<open>0.3\<close>, \<open>0.2\<close> and the sums of them that a
  run forms come out of the doubles as the doubles nearest to the decimals \<open>0.3\<close>,
  \<open>0.5\<close>, \<open>0.6\<close>, \<open>0.7\<close>, \<open>0.8\<close>, \<open>1\<close> that the reals have; the votes of the majority
  fusion are small integers, and their one quotient is rounded once; and the test
  \<open>confidence > 0.6\<close> has the same outcome on a double and on the real it stands for. (The
  multi-frame detection, which adds and divides arbitrary confidences, is modelled with
  the rounding of the doubles; see there, and the lemma \<open>fusion_sums_in_doubles\<close>.)

  An optional field that is \<open>undefined\<close> or \<open>null\<close> is \<open>None\<close>. The fields \<open>facial\<close>,
  \<open>voice\<close> and \<open>text\<close> of the breakdown are \<open>bd_facial\<close>, \<open>bd_voice\<close> and \<open>bd_text\<close> here, and
  the field \<open>confidence\<close> of the fused result is \<open>fusedConfidence\<close>, the name \<open>confidence\<close>
  being that of the field of \<open>EmotionScore\<close>.
\<close>

record EmotionScore =
  emotion :: string
  confidence :: real

record MultiModalEmotionInput =
  facialEmotion :: "EmotionScore option"
  voiceEmotion :: "string option"
  textEmotion :: "string option"

record Breakdown =
  bd_facial :: "string option"
  bd_voice :: "string option"
  bd_text :: "string option"

record FusedEmotionResult =
  finalEmotion :: string
  fusedConfidence :: real
  breakdown :: Breakdown
  fusionMethod :: string

text \<open>
  The two ways a run leaves the numbers of this model. \<open>TypeError\<close> is the exception of
  that name. \<open>NonNumericVote\<close>: an accumulator entry has become a string, because the
  label names a function inherited from \<open>Object.prototype\<close> and \<open>(f || 0) + w\<close>
  concatenates. The source raises nothing there: it stores the string, the comparisons of
  the sort that involve it give \<open>NaN\<close>, and the run returns a result whose confidence is
  \<open>NaN\<close> when that entry comes first or the fusion is the majority one. A string among
  the votes and \<open>NaN\<close> are not numbers of this model, which stops at \<open>NonNumericVote\<close>
  and says nothing about the result of such a run; the statements below that range over
  all inputs exclude these labels in their hypotheses.
\<close>

datatype js_fault = TypeError | NonNumericVote

text \<open>\<open>extractEmotionFromText(s) || s\<close>: every label the extractor returns is non-empty.\<close>

definition extract_or_raw :: "string \<Rightarrow> string" where
  "extract_or_raw s = (case extractEmotionFromText s of Some e \<Rightarrow> e | None \<Rightarrow> s)"

text \<open>
  \<open>emotionVotes[emotion] = (emotionVotes[emotion] || 0) + w\<close>. For \<open>__proto__\<close> the read
  gives the prototype object, the sum is a string, and the assignment is ignored.
\<close>

definition add_vote :: "real js_object \<Rightarrow> string \<Rightarrow> real \<Rightarrow> js_fault + real js_object" where
  "add_vote emotionVotes e w =
     (case obj_get emotionVotes e of
        Own v \<Rightarrow> Inr (obj_set emotionVotes e ((if v = 0 then 0 else v) + w))
      | Undefined \<Rightarrow> Inr (obj_set emotionVotes e (0 + w))
      | Inherited \<Rightarrow> if e = ''__proto__'' then Inr emotionVotes else Inl NonNumericVote)"

text \<open>
  The state of a fusion run: the accumulator \<open>emotionVotes\<close> and the \<open>breakdown\<close>. The three
  guarded blocks are the same in both strategies but for the weight, which is a parameter
  here. \<open>if (input.facialEmotion)\<close> holds of every object; \<open>if (input.voiceEmotion)\<close> holds
  of a string that is not empty.
\<close>

type_synonym tally = "real js_object \<times> Breakdown"

definition facial_block :: "real \<Rightarrow> MultiModalEmotionInput \<Rightarrow> tally \<Rightarrow> js_fault + tally" where
  "facial_block w input t =
     (case facialEmotion input of
        None \<Rightarrow> Inr t
      | Some fe \<Rightarrow>
         (case add_vote (fst t) (normalizeEmotion (emotion fe)) w of
            Inl x \<Rightarrow> Inl x
          | Inr votes \<Rightarrow> Inr (votes, (snd t)\<lparr>bd_facial := Some (normalizeEmotion (emotion fe))\<rparr>)))"

definition voice_block :: "real \<Rightarrow> MultiModalEmotionInput \<Rightarrow> tally \<Rightarrow> js_fault + tally" where
  "voice_block w input t =
     (case voiceEmotion input of
        None \<Rightarrow> Inr t
      | Some s \<Rightarrow>
         if s = [] then Inr t
         else
          (case add_vote (fst t) (normalizeEmotion (extract_or_raw s)) w of
             Inl x \<Rightarrow> Inl x
           | Inr votes \<Rightarrow> Inr (votes, (snd t)\<lparr>bd_voice := Some (normalizeEmotion (extract_or_raw s))\<rparr>)))"

definition text_block :: "real \<Rightarrow> MultiModalEmotionInput \<Rightarrow> tally \<Rightarrow> js_fault + tally" where
  "text_block w input t =
     (case textEmotion input of
        None \<Rightarrow> Inr t
      | Some s \<Rightarrow>
         if s = [] then Inr t
         else
          (case add_vote (fst t) (normalizeEmotion (extract_or_raw s)) w of
             Inl x \<Rightarrow> Inl x
           | Inr votes \<Rightarrow> Inr (votes, (snd t)\<lparr>bd_text := Some (normalizeEmotion (extract_or_raw s))\<rparr>)))"

definition cast_votes ::
  "MultiModalEmotionInput \<Rightarrow> real \<Rightarrow> real \<Rightarrow> real \<Rightarrow> js_fault + tally" where
  "cast_votes input w_facial w_voice w_text =
     (case facial_block w_facial input ([], \<lparr>bd_facial = None, bd_voice = None, bd_text = None\<rparr>) of
        Inl x \<Rightarrow> Inl x
      | Inr t1 \<Rightarrow>
         (case voice_block w_voice input t1 of
            Inl x \<Rightarrow> Inl x
          | Inr t2 \<Rightarrow> text_block w_text input t2))"

text \<open>\<open>entries.sort((a, b) => b[1] - a[1])\<close>: descending by value, and stable.\<close>

definition sort_descending :: "(string \<times> real) list \<Rightarrow> (string \<times> real) list" where
  "sort_descending es = sort_key (\<lambda>e. - snd e) es"

definition facialWeight :: "MultiModalEmotionInput \<Rightarrow> real" where
  "facialWeight input =
     (case facialEmotion input of
        Some fe \<Rightarrow> if confidence fe > 0.6 then 0.5 else 0.3
      | None \<Rightarrow> 0.3)"

definition weightedVotingFusion :: "MultiModalEmotionInput \<Rightarrow> js_fault + FusedEmotionResult" where
  "weightedVotingFusion input =
     (case cast_votes input (facialWeight input) 0.3 0.2 of
        Inl x \<Rightarrow> Inl x
      | Inr t \<Rightarrow>
         (case sort_descending (Object_entries (fst t)) of
            [] \<Rightarrow> Inr \<lparr>finalEmotion = ''Neutral'', fusedConfidence = 0.5,
                      breakdown = snd t, fusionMethod = ''weighted-voting''\<rparr>
          | winner # _ \<Rightarrow>
              Inr \<lparr>finalEmotion = fst winner, fusedConfidence = min (snd winner) 1.0,
                   breakdown = snd t, fusionMethod = ''weighted-voting''\<rparr>))"

definition majorityVotingFusion :: "MultiModalEmotionInput \<Rightarrow> js_fault + FusedEmotionResult" where
  "majorityVotingFusion input =
     (case cast_votes input 1 1 1 of
        Inl x \<Rightarrow> Inl x
      | Inr t \<Rightarrow>
         (case sort_descending (Object_entries (fst t)) of
            [] \<Rightarrow> Inr \<lparr>finalEmotion = ''Neutral'', fusedConfidence = 0.5,
                      breakdown = snd t, fusionMethod = ''majority-voting''\<rparr>
          | winner # _ \<Rightarrow>
              Inr \<lparr>finalEmotion = fst winner,
                   fusedConfidence = snd winner / foldl (+) 0 (Object_values (fst t)),
                   breakdown = snd t, fusionMethod = ''majority-voting''\<rparr>))"

text \<open>Any strategy other than \<open>'majority'\<close> runs the weighted fusion.\<close>

definition fuseEmotions :: "MultiModalEmotionInput \<Rightarrow> string \<Rightarrow> js_fault + FusedEmotionResult" where
  "fuseEmotions input strategy =
     (if strategy = ''majority'' then majorityVotingFusion input
      else weightedVotingFusion input)"

section \<open>Facial expressions over several frames (face-detection)\<close>

text \<open>
  \<open>detectFacialExpressionMultiFrame\<close> calls the per-frame detector \<open>numFrames\<close> times. The
  detector is outside the program; the model takes the list of its successive results,
  \<open>None\<close> for a frame without detection. The pauses between the calls do not enter the
  result. The fields \<open>emotion\<close> and \<open>confidence\<close> of the result are \<open>dominantEmotion\<close> and
  \<open>dominantConfidence\<close> here.
\<close>

record MultiFrameResult =
  dominantEmotion :: string
  dominantConfidence :: real
  allEmotions :: "real js_object"

text \<open>The loop: \<open>if (detection) detections.push(detection)\<close>.\<close>

fun collect_detections :: "EmotionScore option list \<Rightarrow> EmotionScore list" where
  "collect_detections [] = []"
| "collect_detections (None # frames) = collect_detections frames"
| "collect_detections (Some detection # frames) = detection # collect_detections frames"

text \<open>
  \<open>if (!emotionCounts[e]) emotionCounts[e] = []; emotionCounts[e].push(c)\<close>. An inherited
  member of \<open>Object.prototype\<close> is truthy and has no \<open>push\<close>: the call raises.
\<close>

definition push_confidence ::
  "real list js_object \<Rightarrow> EmotionScore \<Rightarrow> js_fault + real list js_object" where
  "push_confidence emotionCounts detection =
     (case obj_get emotionCounts (emotion detection) of
        Undefined \<Rightarrow> Inr (obj_set emotionCounts (emotion detection) ([] @ [confidence detection]))
      | Own confidences \<Rightarrow>
          Inr (obj_set emotionCounts (emotion detection) (confidences @ [confidence detection]))
      | Inherited \<Rightarrow> Inl TypeError)"

fun count_emotions ::
  "EmotionScore list \<Rightarrow> real list js_object \<Rightarrow> js_fault + real list js_object" where
  "count_emotions [] emotionCounts = Inr emotionCounts"
| "count_emotions (detection # detections) emotionCounts =
     (case push_confidence emotionCounts detection of
        Inl x \<Rightarrow> Inl x
      | Inr counts \<Rightarrow> count_emotions detections counts)"

text \<open>
  The confidences are IEEE 754 doubles (binary64). A finite double is modelled as the real
  number it denotes, and an operation of the source as the exact operation followed by
  the rounding of the standard, to the nearest double, a tie going to the double of even
  significand. \<open>binade x\<close> is the exponent \<open>e\<close> with \<open>2^e \<le> |x| < 2^(e + 1)\<close>, not below
  the \<open>-1022\<close> of the subnormal doubles; the doubles between \<open>2^e\<close> and \<open>2^(e + 1)\<close> are the
  multiples of \<open>2^(e - 52)\<close>, and \<open>round_to_double x\<close> is the nearest of them. A decimal
  literal \<open>d\<close> of the source denotes \<open>round_to_double d\<close>. Infinities, \<open>NaN\<close> and the sign
  of zero are not modelled: the model is that of the source as long as the reals it
  rounds stay below \<open>2^1024 - 2^970\<close> in magnitude, as every sum and average of
  confidences between 0 and 1 does.
\<close>

definition round_half_even :: "real \<Rightarrow> int" where
  "round_half_even q =
     (let n = \<lfloor>q\<rfloor> in
      if q - of_int n < 1 / 2 then n
      else if q - of_int n > 1 / 2 then n + 1
      else if even n then n else n + 1)"

definition pow2 :: "int \<Rightarrow> real" where
  "pow2 k = (if 0 \<le> k then 2 ^ nat k else 1 / 2 ^ nat (- k))"

definition binade :: "real \<Rightarrow> int" where
  "binade x = max \<lfloor>log 2 \<bar>x\<bar>\<rfloor> (- 1022)"

definition round_to_double :: "real \<Rightarrow> real" where
  "round_to_double x =
     (if x = 0 then 0
      else of_int (round_half_even (x / pow2 (binade x - 52))) * pow2 (binade x - 52))"

text \<open>
  \<open>avgEmotions[emotion] = confidences.reduce((a, b) => a + b, 0) / confidences.length\<close>:
  every sum and the quotient are rounded. The list of a group is never empty, and its
  length is a double.
\<close>

definition average :: "real list \<Rightarrow> real" where
  "average confidences =
     round_to_double
       (foldl (\<lambda>a b. round_to_double (a + b)) 0 confidences / real (length confidences))"

definition average_emotions :: "real list js_object \<Rightarrow> real js_object" where
  "average_emotions emotionCounts =
     foldl (\<lambda>avgEmotions e. obj_set avgEmotions (fst e) (average (snd e)))
       [] (Object_entries emotionCounts)"

text \<open>
  \<open>entries.reduce((prev, current) => current[1] > prev[1] ? current : prev)\<close>, without an
  initial value: on an empty array it raises.
\<close>

definition reduce_dominant :: "(string \<times> real) list \<Rightarrow> js_fault + (string \<times> real)" where
  "reduce_dominant entries =
     (case entries of
        [] \<Rightarrow> Inl TypeError
      | first # rest \<Rightarrow>
          Inr (foldl (\<lambda>prev current. if snd current > snd prev then current else prev) first rest))"

definition detectFacialExpressionMultiFrame ::
  "EmotionScore option list \<Rightarrow> js_fault + MultiFrameResult option" where
  "detectFacialExpressionMultiFrame frames =
     (let detections = collect_detections frames in
      if length detections = 0 then Inr None
      else
        (case count_emotions detections [] of
           Inl x \<Rightarrow> Inl x
         | Inr emotionCounts \<Rightarrow>
            (case reduce_dominant (Object_entries (average_emotions emotionCounts)) of
               Inl x \<Rightarrow> Inl x
             | Inr dominant \<Rightarrow>
                 Inr (Some \<lparr>dominantEmotion = fst dominant, dominantConfidence = snd dominant,
                            allEmotions = average_emotions emotionCounts\<rparr>))))"

text \<open>
  \<open>emotionMap[faceApiEmotion] || faceApiEmotion\<close>. The result is declared a string; for a
  name of \<open>Object.prototype\<close> the read finds the inherited member, which is truthy, and
  that member is returned.
\<close>

datatype js_value = JString string | JPrototypeMember string

definition emotionMap :: "string js_object" where
  "emotionMap =
     [(''neutral'', ''Neutral''), (''happy'', ''Happy''), (''sad'', ''Sad''),
      (''angry'', ''Angry''), (''fearful'', ''Fearful''), (''disgusted'', ''Disgusted''),
      (''surprised'', ''Surprised'')]"

definition mapFaceApiEmotion :: "string \<Rightarrow> js_value" where
  "mapFaceApiEmotion faceApiEmotion =
     (case obj_get emotionMap faceApiEmotion of
        Own label \<Rightarrow> if label = [] then JString faceApiEmotion else JString label
      | Undefined \<Rightarrow> JString faceApiEmotion
      | Inherited \<Rightarrow> JPrototypeMember faceApiEmotion)"

section \<open>The specification's reading of the extractor\<close>

text \<open>
  The second keyword table of the extractor as the specification lists it, and the
  extractor as the specification describes it: the first taxonomy name, in taxonomy
  order, that occurs in the lower-cased text, otherwise the label of the first rule of the
  table one of whose keywords occurs, otherwise nothing.
\<close>

definition EXTRACTOR_KEYWORDS :: "(string list \<times> string) list" where
  "EXTRACTOR_KEYWORDS =
     [([''happy'', ''joy''], ''Happy''), ([''sad'', ''unhappy''], ''Sad''),
      ([''angry'', ''upset''], ''Angry''), ([''afraid'', ''scared''], ''Fearful''),
      ([''surprised'', ''amazed''], ''Surprised''), ([''disgusted''], ''Disgusted''),
      ([''neutral'', ''calm''], ''Neutral''), ([''anxious'', ''worried''], ''Anxious''),
      ([''excited''], ''Excited''), ([''frustrated''], ''Frustrated''),
      ([''confused''], ''Confused'')]"

definition extract_by_rule :: "string \<Rightarrow> string option" where
  "extract_by_rule text =
     (case find (\<lambda>name. str_includes (toLowerCase text) (toLowerCase name)) STANDARD_EMOTIONS of
        Some name \<Rightarrow> Some name
      | None \<Rightarrow>
          map_option snd
            (find (\<lambda>rule. list_ex (str_includes (toLowerCase text)) (fst rule)) EXTRACTOR_KEYWORDS))"


section \<open>The keywords of the normaliser\<close>

text \<open>The keywords that the normaliser tests before \<open>neutr\<close> and \<open>calm\<close>, in its order.\<close>

definition HIGHER_PRIORITY_KEYWORDS :: "string list" where
  "HIGHER_PRIORITY_KEYWORDS =
     [''happ'', ''joy'', ''sad'', ''depress'', ''ang'', ''mad'', ''fear'', ''scared'',
      ''surpris'', ''shock'', ''disgust'']"



section \<open>Notions used in the statements\<close>

text \<open>
  \<open>precedes a b xs\<close>: \<open>a\<close> occurs in \<open>xs\<close>, and its first occurrence comes before every
  occurrence of \<open>b\<close>.
\<close>

definition precedes :: "'a \<Rightarrow> 'a \<Rightarrow> 'a list \<Rightarrow> bool" where
  "precedes a b xs = (a \<in> set xs \<and> b \<notin> set (takeWhile (\<lambda>x. x \<noteq> a) xs))"

text \<open>The keys of an object after an assignment to the key \<open>k\<close>.\<close>

definition add_key :: "string list \<Rightarrow> string \<Rightarrow> string list" where
  "add_key ks k = (if k = ''__proto__'' \<or> k \<in> set ks then ks else ks @ [k])"


text \<open>
  \<open>listed_before a b labels\<close>: of two distinct keys created in the order \<open>labels\<close>,
  \<open>Object.entries\<close> lists \<open>a\<close> before \<open>b\<close>: an array index before every other key and before
  every array index of greater value, and otherwise the key created first.
\<close>

definition listed_before :: "string \<Rightarrow> string \<Rightarrow> string list \<Rightarrow> bool" where
  "listed_before a b labels =
     (a \<noteq> b \<and>
      (if is_array_index a then (if is_array_index b then decimal a < decimal b else True)
       else (if is_array_index b then False else precedes a b labels)))"

text \<open>
  An entry of highest value with only smaller values before it: what the stable
  descending sort puts first and what the \<open>reduce\<close> of the multi-frame detection keeps.
\<close>

definition first_highest :: "(string \<times> real) \<Rightarrow> (string \<times> real) list \<Rightarrow> bool" where
  "first_highest m es =
     (\<exists>pre post. es = pre @ m # post \<and> (\<forall>x\<in>set pre. snd x < snd m) \<and> (\<forall>x\<in>set post. snd x \<le> snd m))"


text \<open>
  The votes of a fusion run: for each channel that passes its guard, in the order facial,
  voice, text, the normalised label and the weight. \<open>accumulated votes l\<close> is the sum of
  the weights cast for the label \<open>l\<close>, and \<open>expected_breakdown\<close> names the normalised label of
  each such channel. \<open>bump\<close> and \<open>push\<close> are the assignments of the two accumulators when
  the key names no member of \<open>Object.prototype\<close>, and \<open>confidences_of l\<close> lists the
  confidences of the samples labelled \<open>l\<close>, in the order of the samples. A probability is
  a double between 0 and 1.
\<close>

definition channel_votes ::
  "MultiModalEmotionInput \<Rightarrow> real \<Rightarrow> real \<Rightarrow> real \<Rightarrow> (string \<times> real) list" where
  "channel_votes input w_facial w_voice w_text =
     (case facialEmotion input of
        None \<Rightarrow> []
      | Some fe \<Rightarrow> [(normalizeEmotion (emotion fe), w_facial)])
     @ (case voiceEmotion input of
          None \<Rightarrow> []
        | Some s \<Rightarrow> if s = [] then [] else [(normalizeEmotion (extract_or_raw s), w_voice)])
     @ (case textEmotion input of
          None \<Rightarrow> []
        | Some s \<Rightarrow> if s = [] then [] else [(normalizeEmotion (extract_or_raw s), w_text)])"

definition weighted_votes :: "MultiModalEmotionInput \<Rightarrow> (string \<times> real) list" where
  "weighted_votes input = channel_votes input (facialWeight input) 0.3 0.2"

definition accumulated :: "(string \<times> real) list \<Rightarrow> string \<Rightarrow> real" where
  "accumulated votes l = sum_list (map snd (filter (\<lambda>v. fst v = l) votes))"

definition expected_breakdown :: "MultiModalEmotionInput \<Rightarrow> Breakdown" where
  "expected_breakdown input =
     \<lparr>bd_facial = (case facialEmotion input of
                     None \<Rightarrow> None
                   | Some fe \<Rightarrow> Some (normalizeEmotion (emotion fe))),
      bd_voice = (case voiceEmotion input of
                    None \<Rightarrow> None
                  | Some s \<Rightarrow> if s = [] then None else Some (normalizeEmotion (extract_or_raw s))),
      bd_text = (case textEmotion input of
                   None \<Rightarrow> None
                 | Some s \<Rightarrow> if s = [] then None else Some (normalizeEmotion (extract_or_raw s)))\<rparr>"

definition bump :: "real js_object \<Rightarrow> string \<times> real \<Rightarrow> real js_object" where
  "bump obj vote =
     obj_set obj (fst vote) ((case map_of obj (fst vote) of None \<Rightarrow> 0 | Some v \<Rightarrow> v) + snd vote)"

definition push :: "real list js_object \<Rightarrow> EmotionScore \<Rightarrow> real list js_object" where
  "push obj d =
     obj_set obj (emotion d)
       ((case map_of obj (emotion d) of None \<Rightarrow> [] | Some cs \<Rightarrow> cs) @ [confidence d])"

definition confidences_of :: "string \<Rightarrow> EmotionScore list \<Rightarrow> real list" where
  "confidences_of label detections = map confidence (filter (\<lambda>d. emotion d = label) detections)"

definition is_probability :: "real \<Rightarrow> bool" where
  "is_probability c = (round_to_double c = c \<and> 0 \<le> c \<and> c \<le> 1)"

text \<open>
  The strings that a fusion run hands to the normaliser, one for each channel that passes
  its guard, and their normalised labels.
\<close>

definition channel_strings :: "MultiModalEmotionInput \<Rightarrow> string list" where
  "channel_strings input =
     (case facialEmotion input of None \<Rightarrow> [] | Some fe \<Rightarrow> [emotion fe])
     @ (case voiceEmotion input of
          None \<Rightarrow> []
        | Some s \<Rightarrow> if s = [] then [] else [extract_or_raw s])
     @ (case textEmotion input of
          None \<Rightarrow> []
        | Some s \<Rightarrow> if s = [] then [] else [extract_or_raw s])"

definition channel_labels :: "MultiModalEmotionInput \<Rightarrow> string list" where
  "channel_labels input = map normalizeEmotion (channel_strings input)"


section \<open>Evaluation rules\<close>

text \<open>The lower case of the characters that the examples below are written in.\<close>

lemma lower_char_ascii:
  "lower_char (CHR ''A'') = CHR ''a''" "lower_char (CHR ''B'') = CHR ''b''"
  "lower_char (CHR ''C'') = CHR ''c''" "lower_char (CHR ''D'') = CHR ''d''"
  "lower_char (CHR ''E'') = CHR ''e''" "lower_char (CHR ''F'') = CHR ''f''"
  "lower_char (CHR ''G'') = CHR ''g''" "lower_char (CHR ''H'') = CHR ''h''"
  "lower_char (CHR ''I'') = CHR ''i''" "lower_char (CHR ''J'') = CHR ''j''"
  "lower_char (CHR ''K'') = CHR ''k''" "lower_char (CHR ''L'') = CHR ''l''"
  "lower_char (CHR ''M'') = CHR ''m''" "lower_char (CHR ''N'') = CHR ''n''"
  "lower_char (CHR ''O'') = CHR ''o''" "lower_char (CHR ''P'') = CHR ''p''"
  "lower_char (CHR ''Q'') = CHR ''q''" "lower_char (CHR ''R'') = CHR ''r''"
  "lower_char (CHR ''S'') = CHR ''s''" "lower_char (CHR ''T'') = CHR ''t''"
  "lower_char (CHR ''U'') = CHR ''u''" "lower_char (CHR ''V'') = CHR ''v''"
  "lower_char (CHR ''W'') = CHR ''w''" "lower_char (CHR ''X'') = CHR ''x''"
  "lower_char (CHR ''Y'') = CHR ''y''" "lower_char (CHR ''Z'') = CHR ''z''"
  "lower_char (CHR ''a'') = CHR ''a''" "lower_char (CHR ''b'') = CHR ''b''"
  "lower_char (CHR ''c'') = CHR ''c''" "lower_char (CHR ''d'') = CHR ''d''"
  "lower_char (CHR ''e'') = CHR ''e''" "lower_char (CHR ''f'') = CHR ''f''"
  "lower_char (CHR ''g'') = CHR ''g''" "lower_char (CHR ''h'') = CHR ''h''"
  "lower_char (CHR ''i'') = CHR ''i''" "lower_char (CHR ''j'') = CHR ''j''"
  "lower_char (CHR ''k'') = CHR ''k''" "lower_char (CHR ''l'') = CHR ''l''"
  "lower_char (CHR ''m'') = CHR ''m''" "lower_char (CHR ''n'') = CHR ''n''"
  "lower_char (CHR ''o'') = CHR ''o''" "lower_char (CHR ''p'') = CHR ''p''"
  "lower_char (CHR ''q'') = CHR ''q''" "lower_char (CHR ''r'') = CHR ''r''"
  "lower_char (CHR ''s'') = CHR ''s''" "lower_char (CHR ''t'') = CHR ''t''"
  "lower_char (CHR ''u'') = CHR ''u''" "lower_char (CHR ''v'') = CHR ''v''"
  "lower_char (CHR ''w'') = CHR ''w''" "lower_char (CHR ''x'') = CHR ''x''"
  "lower_char (CHR ''y'') = CHR ''y''" "lower_char (CHR ''z'') = CHR ''z''"
  "lower_char (CHR ''0'') = CHR ''0''" "lower_char (CHR ''1'') = CHR ''1''"
  "lower_char (CHR ''2'') = CHR ''2''" "lower_char (CHR ''3'') = CHR ''3''"
  "lower_char (CHR ''4'') = CHR ''4''" "lower_char (CHR ''5'') = CHR ''5''"
  "lower_char (CHR ''6'') = CHR ''6''" "lower_char (CHR ''7'') = CHR ''7''"
  "lower_char (CHR ''8'') = CHR ''8''" "lower_char (CHR ''9'') = CHR ''9''"
  "lower_char (CHR ''_'') = CHR ''_''" "lower_char (CHR '' '') = CHR '' ''"
  by (simp_all add: lower_char_def upper_letters_def lower_letters_def)

lemmas str_defs = toLowerCase_def lower_char_ascii upper_char_def upper_letters_def lower_letters_def
  trim_def is_space_def white_space_def STANDARD_EMOTIONS_def

lemmas obj_defs = obj_get_def obj_set_def OBJECT_PROTOTYPE_KEYS_def Object_entries_def
  Object_values_def is_array_index_def is_digit_def decimal_def digit_value_def

lemmas fusion_defs = fuseEmotions_def weightedVotingFusion_def majorityVotingFusion_def
  cast_votes_def facial_block_def voice_block_def text_block_def add_vote_def extract_or_raw_def
  facialWeight_def sort_descending_def

lemmas multi_frame_defs = detectFacialExpressionMultiFrame_def push_confidence_def
  average_emotions_def average_def reduce_dominant_def

section \<open>Rounding to the nearest double\<close>

lemma pow2_powr: "pow2 k = 2 powr of_int k"
proof (cases "0 \<le> k")
  case True
  then show ?thesis
    by (simp add: pow2_def powr_realpow [symmetric])
next
  case False
  have "(2::real) powr of_int k = 1 / 2 powr of_int (- k)"
    by (simp add: powr_minus_divide)
  also have "\<dots> = 1 / 2 ^ nat (- k)"
    using False by (simp add: powr_realpow [symmetric])
  finally show ?thesis
    using False by (simp add: pow2_def)
qed

lemma binade_eq:
  assumes "pow2 k \<le> \<bar>x\<bar>" "\<bar>x\<bar> < pow2 (k + 1)" "- 1022 \<le> k"
  shows "binade x = k"
proof -
  have "0 < pow2 k"
    by (simp add: pow2_powr)
  with assms(1) have "0 < \<bar>x\<bar>"
    by simp
  then have "\<lfloor>log 2 \<bar>x\<bar>\<rfloor> = k"
    using assms(1,2) by (simp add: floor_log_eq_powr_iff pow2_powr)
  with assms(3) show ?thesis
    by (simp add: binade_def)
qed

lemma round_to_double_in_binade:
  assumes "pow2 k \<le> \<bar>x\<bar>" "\<bar>x\<bar> < pow2 (k + 1)" "- 1022 \<le> k"
  shows "round_to_double x = of_int (round_half_even (x / pow2 (k - 52))) * pow2 (k - 52)"
proof -
  have "0 < pow2 k"
    by (simp add: pow2_powr)
  with assms(1) have "x \<noteq> 0"
    by auto
  then show ?thesis
    by (simp add: round_to_double_def binade_eq [OF assms])
qed

text \<open>The rounding moves a number by half a unit in the last place at most.\<close>

lemma round_half_even_near: "\<bar>of_int (round_half_even q) - q\<bar> \<le> 1 / 2"
  unfolding round_half_even_def Let_def by (auto; linarith)

lemma round_to_double_near:
  assumes "x \<noteq> 0"
  shows "\<bar>round_to_double x - x\<bar> \<le> pow2 (binade x - 52) / 2"
proof -
  let ?u = "pow2 (binade x - 52)"
  have u: "0 < ?u"
    by (simp add: pow2_powr)
  have "round_to_double x - x = (of_int (round_half_even (x / ?u)) - x / ?u) * ?u"
    using assms u by (simp add: round_to_double_def algebra_simps)
  then have "\<bar>round_to_double x - x\<bar> = \<bar>of_int (round_half_even (x / ?u)) - x / ?u\<bar> * ?u"
    using u by (simp add: abs_mult)
  also have "\<dots> \<le> 1 / 2 * ?u"
    using u by (intro mult_right_mono round_half_even_near) simp
  finally show ?thesis
    by simp
qed

text \<open>The doubles from 1/2 to 1 are the multiples of \<open>2^-53\<close>, and so on.\<close>

lemma round_from_half:
  assumes "1 / 2 \<le> \<bar>x\<bar>" "\<bar>x\<bar> < 1"
  shows "round_to_double x = of_int (round_half_even (x * 9007199254740992)) / 9007199254740992"
  using assms by (subst round_to_double_in_binade [of "- 1"]) (simp_all add: pow2_def)

lemma round_from_one:
  assumes "1 \<le> \<bar>x\<bar>" "\<bar>x\<bar> < 2"
  shows "round_to_double x = of_int (round_half_even (x * 4503599627370496)) / 4503599627370496"
  using assms by (subst round_to_double_in_binade [of 0]) (simp_all add: pow2_def)

lemma round_from_two:
  assumes "2 \<le> \<bar>x\<bar>" "\<bar>x\<bar> < 4"
  shows "round_to_double x = of_int (round_half_even (x * 2251799813685248)) / 2251799813685248"
  using assms by (subst round_to_double_in_binade [of 1]) (simp_all add: pow2_def)

lemma round_from_quarter:
  assumes "1 / 4 \<le> \<bar>x\<bar>" "\<bar>x\<bar> < 1 / 2"
  shows "round_to_double x = of_int (round_half_even (x * 18014398509481984)) / 18014398509481984"
  using assms by (subst round_to_double_in_binade [of "- 2"]) (simp_all add: pow2_def)

lemma round_from_eighth:
  assumes "1 / 8 \<le> \<bar>x\<bar>" "\<bar>x\<bar> < 1 / 4"
  shows "round_to_double x = of_int (round_half_even (x * 36028797018963968)) / 36028797018963968"
  using assms by (subst round_to_double_in_binade [of "- 3"]) (simp_all add: pow2_def)

lemmas round_rules = round_from_half round_from_one round_from_two round_half_even_def Let_def

text \<open>
  The sums of weights that the weighted fusion forms: in doubles each is the double
  nearest to the decimal sum, which is what the reals of the fusion stand for.
\<close>

lemma fusion_sums_in_doubles:
  "round_to_double (round_to_double 0.3 + round_to_double 0.3) = round_to_double 0.6"
  "round_to_double (round_to_double 0.5 + round_to_double 0.3) = round_to_double 0.8"
  "round_to_double (round_to_double 0.5 + round_to_double 0.2) = round_to_double 0.7"
  "round_to_double (round_to_double 0.3 + round_to_double 0.2) = round_to_double 0.5"
  "round_to_double (round_to_double (round_to_double 0.5 + round_to_double 0.3) + round_to_double 0.2)
     = round_to_double 1"
  "round_to_double (round_to_double (round_to_double 0.3 + round_to_double 0.3) + round_to_double 0.2)
     = round_to_double 0.8"
  by (simp_all add: round_rules round_from_quarter round_from_eighth)

text \<open>
  The literals of the example below: \<open>0.8\<close> is the double \<open>7205759403792794 / 2^53\<close>, and
  \<open>0.8000000000000002\<close> is the next double.
\<close>

lemma double_literals:
  "round_to_double 0.8 = 7205759403792794 / 9007199254740992"
  "round_to_double 0.8000000000000002 = 7205759403792795 / 9007199254740992"
  "round_to_double 0.6 = 5404319552844595 / 9007199254740992"
  by (simp_all add: round_rules)

section \<open>First occurrences in a list\<close>

lemma precedes_iff:
  "precedes a b xs \<longleftrightarrow> (\<exists>pre post. xs = pre @ a # post \<and> a \<notin> set pre \<and> b \<notin> set pre)"
proof
  assume p: "precedes a b xs"
  then have a: "a \<in> set xs" and b: "b \<notin> set (takeWhile (\<lambda>x. x \<noteq> a) xs)"
    by (simp_all add: precedes_def)
  from a obtain pre post where xs: "xs = pre @ a # post" and pre: "a \<notin> set pre"
    by (auto dest: split_list_first)
  from pre have "takeWhile (\<lambda>x. x \<noteq> a) (pre @ a # post) = pre"
    by (induction pre) auto
  with b xs have "b \<notin> set pre" by simp
  with xs pre show "\<exists>pre post. xs = pre @ a # post \<and> a \<notin> set pre \<and> b \<notin> set pre"
    by blast
next
  assume "\<exists>pre post. xs = pre @ a # post \<and> a \<notin> set pre \<and> b \<notin> set pre"
  then obtain pre post where xs: "xs = pre @ a # post" and pre: "a \<notin> set pre" "b \<notin> set pre"
    by blast
  from pre have "takeWhile (\<lambda>x. x \<noteq> a) (pre @ a # post) = pre"
    by (induction pre) auto
  with xs pre show "precedes a b xs"
    by (simp add: precedes_def)
qed

lemma precedes_antisym:
  assumes "precedes a b xs" "precedes b a xs"
  shows "a = b"
proof (rule ccontr)
  assume ne: "a \<noteq> b"
  from assms(1) obtain pre post where xs: "xs = pre @ a # post" and pre: "a \<notin> set pre" "b \<notin> set pre"
    unfolding precedes_iff by blast
  from pre ne have "takeWhile (\<lambda>x. x \<noteq> b) (pre @ a # post) = pre @ a # takeWhile (\<lambda>x. x \<noteq> b) post"
    by (induction pre) auto
  with assms(2) xs show False
    by (simp add: precedes_def)
qed

lemma precedes_append_left:
  "precedes a b xs \<Longrightarrow> precedes a b (xs @ ys)"
  unfolding precedes_iff by (metis append.assoc append_Cons)

lemma precedes_filter:
  assumes "precedes a b (filter P xs)" "P b"
  shows "precedes a b xs"
proof -
  from assms(1) have a: "a \<in> set xs" "P a" and b: "b \<notin> set (takeWhile (\<lambda>x. x \<noteq> a) (filter P xs))"
    by (auto simp: precedes_def)
  have "takeWhile (\<lambda>x. x \<noteq> a) (filter P xs) = filter P (takeWhile (\<lambda>x. x \<noteq> a) xs)"
    using a(2) by (induction xs) auto
  with b assms(2) have "b \<notin> set (takeWhile (\<lambda>x. x \<noteq> a) xs)" by simp
  with a show ?thesis by (simp add: precedes_def)
qed

lemma precedes_append_right:
  assumes "precedes a b (ys @ xs)" "a \<notin> set ys"
  shows "precedes a b xs"
proof -
  from assms(2) have "takeWhile (\<lambda>x. x \<noteq> a) (ys @ xs) = ys @ takeWhile (\<lambda>x. x \<noteq> a) xs"
    by (induction ys) auto
  with assms show ?thesis by (auto simp: precedes_def)
qed

section \<open>The keys of an object under assignment\<close>

lemma keys_obj_set: "map fst (obj_set obj k v) = add_key (map fst obj) k"
proof -
  have "map fst (map (\<lambda>e. if fst e = k then (k, v) else e) obj) = map fst obj"
    by (induction obj) simp_all
  then show ?thesis
    by (simp add: obj_set_def add_key_def)
qed

lemma map_of_update_other:
  "l \<noteq> k \<Longrightarrow> map_of (map (\<lambda>e. if fst e = k then (k, v) else e) xs) l = map_of xs l"
  by (induction xs) simp_all

lemma map_of_update_same:
  "k \<in> fst ` set xs \<Longrightarrow> map_of (map (\<lambda>e. if fst e = k then (k, v) else e) xs) k = Some v"
  by (induction xs) auto

lemma map_of_obj_set:
  assumes "k \<noteq> ''__proto__''"
  shows "map_of (obj_set obj k v) l = (if l = k then Some v else map_of obj l)"
proof (cases "k \<in> fst ` set obj")
  case True
  with assms show ?thesis
    by (simp add: obj_set_def map_of_update_other map_of_update_same)
next
  case False
  then have "map_of obj k = None"
    by (simp add: map_of_eq_None_iff)
  with assms False show ?thesis
    by (auto simp: obj_set_def map_add_def split: option.splits)
qed

lemma set_foldl_add_key:
  "set (foldl add_key ks xs) = set ks \<union> (set xs - {''__proto__''})"
  by (induction xs arbitrary: ks) (auto simp: add_key_def)

lemma distinct_foldl_add_key:
  "distinct ks \<Longrightarrow> distinct (foldl add_key ks xs)"
  by (induction xs arbitrary: ks) (auto simp: add_key_def)

lemma precedes_foldl_add_key:
  assumes "precedes a b xs" "a \<noteq> ''__proto__''"
  shows "precedes a b (foldl add_key [] xs)"
  using assms
proof (induction xs rule: rev_induct)
  case Nil
  then show ?case by (simp add: precedes_def)
next
  case (snoc k xs)
  let ?ks = "foldl add_key [] xs"
  show ?case
  proof (cases "a \<in> set xs")
    case True
    with snoc.prems have "precedes a b xs"
      by (simp add: precedes_def)
    with snoc have "precedes a b ?ks" by simp
    then have "precedes a b (add_key ?ks k)"
      by (auto simp: add_key_def intro: precedes_append_left)
    then show ?thesis by simp
  next
    case False
    with snoc.prems have k: "k = a"
      by (auto simp: precedes_def)
    from False have "takeWhile (\<lambda>x. x \<noteq> a) (xs @ [a]) = xs"
      by (induction xs) auto
    with snoc.prems k have b: "b \<notin> set xs"
      by (simp add: precedes_def)
    from False b have "a \<notin> set ?ks" "b \<notin> set ?ks"
      by (simp_all add: set_foldl_add_key)
    with snoc.prems(2) k have "precedes a b (add_key ?ks k)"
      unfolding precedes_iff add_key_def by auto
    then show ?thesis by simp
  qed
qed

section \<open>The order of Object.entries\<close>

lemma set_Object_entries: "set (Object_entries obj) = set obj"
  by (auto simp: Object_entries_def)

lemma distinct_keys_Object_entries:
  assumes "distinct (map fst obj)"
  shows "distinct (map fst (Object_entries obj))"
proof -
  from assms have inj: "inj_on fst (set obj)" and d: "distinct obj"
    by (simp_all add: distinct_map)
  from d have "distinct (Object_entries obj)"
    by (auto simp: Object_entries_def)
  with inj show ?thesis
    by (simp add: distinct_map set_Object_entries)
qed

lemma keys_Object_entries:
  "map fst (Object_entries obj) =
     map fst (sort_key (\<lambda>(k, v). decimal k) (filter (\<lambda>(k, v). is_array_index k) obj))
     @ filter (\<lambda>k. \<not> is_array_index k) (map fst obj)"
  by (simp add: Object_entries_def filter_map comp_def split_def)

lemma precedes_Object_entries:
  assumes "precedes a b (map fst (Object_entries obj))" "\<not> is_array_index a" "\<not> is_array_index b"
  shows "precedes a b (map fst obj)"
proof -
  have "a \<notin> set (map fst (sort_key (\<lambda>(k, v). decimal k) (filter (\<lambda>(k, v). is_array_index k) obj)))"
    using assms(2) by auto
  with assms(1) have "precedes a b (filter (\<lambda>k. \<not> is_array_index k) (map fst obj))"
    unfolding keys_Object_entries by (rule precedes_append_right)
  then show ?thesis
    using assms(3) by (rule precedes_filter)
qed

lemma map_of_Object_entries:
  assumes "distinct (map fst obj)"
  shows "map_of (Object_entries obj) = map_of obj"
  using assms distinct_keys_Object_entries [OF assms]
  by (simp add: map_of_inject_set set_Object_entries)

lemma insort_key_map_values:
  "insort_key (\<lambda>(k, v). f k) (fst e, g (snd e)) (map (\<lambda>e. (fst e, g (snd e))) es)
     = map (\<lambda>e. (fst e, g (snd e))) (insort_key (\<lambda>(k, v). f k) e es)"
  by (induction es) (auto simp: split_def)

lemma sort_key_map_values:
  "sort_key (\<lambda>(k, v). f k) (map (\<lambda>e. (fst e, g (snd e))) es)
     = map (\<lambda>e. (fst e, g (snd e))) (sort_key (\<lambda>(k, v). f k) es)"
  by (induction es) (simp_all add: insort_key_map_values)

lemma Object_entries_map_values:
  "Object_entries (map (\<lambda>e. (fst e, g (snd e))) obj) = map (\<lambda>e. (fst e, g (snd e))) (Object_entries obj)"
  by (simp add: Object_entries_def filter_map comp_def split_def
      sort_key_map_values [unfolded split_def])

lemma Object_entries_idem: "Object_entries (Object_entries obj) = Object_entries obj"
proof -
  let ?A = "sort_key (\<lambda>(k, v). decimal k) (filter (\<lambda>(k, v). is_array_index k) obj)"
  let ?B = "filter (\<lambda>(k, v). \<not> is_array_index k) obj"
  have A: "filter (\<lambda>(k, v). is_array_index k) ?A = ?A" "filter (\<lambda>(k, v). \<not> is_array_index k) ?A = []"
    by (auto simp: filter_id_conv filter_empty_conv)
  have B: "filter (\<lambda>(k, v). is_array_index k) ?B = []" "filter (\<lambda>(k, v). \<not> is_array_index k) ?B = ?B"
    by (auto simp: filter_id_conv filter_empty_conv)
  have "sort_key (\<lambda>(k, v). decimal k) ?A = ?A"
    by (rule sort_key_id_if_sorted) simp
  with A B show ?thesis
    by (simp add: Object_entries_def)
qed

section \<open>The first entry of highest value\<close>

lemma first_highest_snoc:
  assumes "first_highest m es"
  shows "first_highest (if snd x > snd m then x else m) (es @ [x])"
proof -
  from assms obtain pre post where dec: "es = pre @ m # post"
    and pre: "\<forall>y\<in>set pre. snd y < snd m" and post: "\<forall>y\<in>set post. snd y \<le> snd m"
    unfolding first_highest_def by blast
  show ?thesis
  proof (cases "snd x > snd m")
    case True
    have "snd y < snd x" if "y \<in> set es" for y
    proof -
      from that dec have "y \<in> set pre \<or> y = m \<or> y \<in> set post" by auto
      then have "snd y \<le> snd m"
        using pre post by (auto intro: less_imp_le)
      with True show ?thesis by simp
    qed
    then have "es @ [x] = es @ x # [] \<and> (\<forall>y\<in>set es. snd y < snd x) \<and> (\<forall>y\<in>set []. snd y \<le> snd x)"
      by simp
    with True show ?thesis
      unfolding first_highest_def by (simp only: if_True) blast
  next
    case False
    then have "es @ [x] = pre @ m # (post @ [x]) \<and> (\<forall>y\<in>set pre. snd y < snd m)
        \<and> (\<forall>y\<in>set (post @ [x]). snd y \<le> snd m)"
      using dec pre post by auto
    with False show ?thesis
      unfolding first_highest_def by (simp only: if_False) blast
  qed
qed

lemma reduce_first_highest:
  "first_highest (foldl (\<lambda>prev current. if snd current > snd prev then current else prev) e es) (e # es)"
proof (induction es rule: rev_induct)
  case Nil
  have "[e] = [] @ e # [] \<and> (\<forall>x\<in>set []. snd x < snd e) \<and> (\<forall>x\<in>set []. snd x \<le> snd e)"
    by simp
  then show ?case
    unfolding first_highest_def foldl_Nil by blast
next
  case (snoc x es)
  from first_highest_snoc [OF snoc, of x] show ?case
    by simp
qed

lemma hd_insort_key:
  "hd (insort_key f x ys) = (if ys = [] \<or> f x \<le> f (hd ys) then x else hd ys)"
  by (cases ys) simp_all

lemma sort_key_eq_Nil_iff: "sort_key f xs = [] \<longleftrightarrow> xs = []"
  by (metis length_sort list.size(3) length_0_conv)

lemma hd_sort_first_lowest:
  "xs \<noteq> [] \<Longrightarrow>
     \<exists>pre post. xs = pre @ hd (sort_key f xs) # post
        \<and> (\<forall>x\<in>set pre. f (hd (sort_key f xs)) < f x) \<and> (\<forall>x\<in>set post. f (hd (sort_key f xs)) \<le> f x)"
  for f :: "'a \<Rightarrow> real"
proof (induction xs)
  case Nil
  then show ?case by simp
next
  case (Cons x xs)
  show ?case
  proof (cases "xs = []")
    case True
    then have "x # xs = [] @ hd (sort_key f (x # xs)) # []" by simp
    then show ?thesis
      by (intro exI [of _ "[]"]) simp
  next
    case False
    let ?h = "hd (sort_key f xs)"
    from Cons.IH [OF False] obtain pre post where dec: "xs = pre @ ?h # post"
      and pre: "\<forall>y\<in>set pre. f ?h < f y" and post: "\<forall>y\<in>set post. f ?h \<le> f y"
      by blast
    have ne: "sort_key f xs \<noteq> []"
      using False by (simp add: sort_key_eq_Nil_iff)
    show ?thesis
    proof (cases "f x \<le> f ?h")
      case True
      then have h: "hd (sort_key f (x # xs)) = x"
        by (simp add: hd_insort_key)
      have "f x \<le> f y" if "y \<in> set xs" for y
      proof -
        from that dec have "y \<in> set pre \<or> y = ?h \<or> y \<in> set post"
          by (metis Un_iff set_ConsD set_append)
        then have "f ?h \<le> f y"
          using pre post by (auto intro: less_imp_le)
        with True show ?thesis by simp
      qed
      then have "\<forall>y\<in>set xs. f x \<le> f y" by blast
      then show ?thesis
        unfolding h by (intro exI [of _ "[]"] exI [of _ xs]) simp
    next
      case False
      then have h: "hd (sort_key f (x # xs)) = ?h"
        using ne by (simp add: hd_insort_key)
      have "x # xs = (x # pre) @ ?h # post"
        using dec by simp
      moreover have "\<forall>y\<in>set (x # pre). f ?h < f y"
        using False pre by auto
      ultimately show ?thesis
        unfolding h using post by (intro exI [of _ "x # pre"] exI [of _ post]) simp
    qed
  qed
qed

lemma sort_descending_first_highest:
  assumes "es \<noteq> []"
  shows "first_highest (hd (sort_descending es)) es"
  using hd_sort_first_lowest [OF assms, of "\<lambda>e. - snd e"]
  unfolding first_highest_def sort_descending_def by simp

lemma first_highest_mem: "first_highest m es \<Longrightarrow> m \<in> set es"
  unfolding first_highest_def by auto

lemma first_highest_max:
  assumes "first_highest m es" "e \<in> set es"
  shows "snd e \<le> snd m"
proof -
  from assms(1) obtain pre post where dec: "es = pre @ m # post"
    and pre: "\<forall>y\<in>set pre. snd y < snd m" and post: "\<forall>y\<in>set post. snd y \<le> snd m"
    unfolding first_highest_def by blast
  from assms(2) dec consider "e \<in> set pre" | "e = m" | "e \<in> set post"
    by auto
  then show ?thesis
  proof cases
    case 1
    with pre have "snd e < snd m" by blast
    then show ?thesis by simp
  next
    case 2
    then show ?thesis by simp
  next
    case 3
    with post show ?thesis by blast
  qed
qed

lemma first_highest_precedes:
  assumes "first_highest m es" "e \<in> set es" "snd e = snd m" "distinct (map fst es)"
  shows "precedes (fst m) (fst e) (map fst es)"
proof -
  from assms(1) obtain pre post where dec: "es = pre @ m # post"
    and pre: "\<forall>x\<in>set pre. snd x < snd m"
    unfolding first_highest_def by blast
  from assms(2,3) pre have "e \<notin> set pre" by auto
  with assms(2) dec have "e = m \<or> e \<in> set post" by auto
  with assms(4) dec have "fst e \<notin> fst ` set pre"
    by auto
  moreover from assms(4) dec have "fst m \<notin> fst ` set pre"
    by auto
  moreover have "map fst es = map fst pre @ fst m # map fst post"
    using dec by simp
  ultimately show ?thesis
    unfolding precedes_iff by (intro exI [of _ "map fst pre"] exI [of _ "map fst post"]) simp
qed

section \<open>The accumulator of the fusion\<close>

lemma proto_is_prototype_key: "''__proto__'' \<in> set OBJECT_PROTOTYPE_KEYS"
  by (simp add: OBJECT_PROTOTYPE_KEYS_def)

lemma add_vote_eq:
  assumes "e \<notin> set OBJECT_PROTOTYPE_KEYS"
  shows "add_vote obj e w = Inr (bump obj (e, w))"
  using assms by (cases "map_of obj e") (simp_all add: add_vote_def obj_get_def bump_def)

lemma cast_votes_eq:
  assumes "list_all (\<lambda>v. fst v \<notin> set OBJECT_PROTOTYPE_KEYS) (channel_votes input wf' wv wt)"
  shows "cast_votes input wf' wv wt
          = Inr (foldl bump [] (channel_votes input wf' wv wt), expected_breakdown input)"
proof -
  let ?b0 = "\<lparr>bd_facial = None, bd_voice = None, bd_text = None\<rparr>"
  let ?F = "case facialEmotion input of None \<Rightarrow> [] | Some fe \<Rightarrow> [(normalizeEmotion (emotion fe), wf')]"
  let ?V = "case voiceEmotion input of None \<Rightarrow> []
              | Some s \<Rightarrow> if s = [] then [] else [(normalizeEmotion (extract_or_raw s), wv)]"
  let ?T = "case textEmotion input of None \<Rightarrow> []
              | Some s \<Rightarrow> if s = [] then [] else [(normalizeEmotion (extract_or_raw s), wt)]"
  from assms have okF: "list_all (\<lambda>v. fst v \<notin> set OBJECT_PROTOTYPE_KEYS) ?F"
    and okV: "list_all (\<lambda>v. fst v \<notin> set OBJECT_PROTOTYPE_KEYS) ?V"
    and okT: "list_all (\<lambda>v. fst v \<notin> set OBJECT_PROTOTYPE_KEYS) ?T"
    by (simp_all add: channel_votes_def)
  have f: "facial_block wf' input ([], ?b0)
            = Inr (foldl bump [] ?F, ?b0\<lparr>bd_facial := bd_facial (expected_breakdown input)\<rparr>)"
    using okF by (cases "facialEmotion input")
      (simp_all add: facial_block_def add_vote_eq expected_breakdown_def)
  have v: "voice_block wv input (obj, bd)
            = Inr (foldl bump obj ?V, bd\<lparr>bd_voice := bd_voice (expected_breakdown input)\<rparr>)"
    if "bd_voice bd = None" for obj bd
    using okV that by (cases "voiceEmotion input")
      (auto simp: voice_block_def add_vote_eq expected_breakdown_def)
  have t: "text_block wt input (obj, bd)
            = Inr (foldl bump obj ?T, bd\<lparr>bd_text := bd_text (expected_breakdown input)\<rparr>)"
    if "bd_text bd = None" for obj bd
    using okT that by (cases "textEmotion input")
      (auto simp: text_block_def add_vote_eq expected_breakdown_def)
  show ?thesis
    by (simp add: cast_votes_def f v t channel_votes_def expected_breakdown_def)
qed

lemma keys_foldl_bump:
  "map fst (foldl bump obj votes) = foldl add_key (map fst obj) (map fst votes)"
  by (induction votes arbitrary: obj) (simp_all add: bump_def keys_obj_set)

lemma accumulated_snoc:
  "accumulated (votes @ [v]) l = accumulated votes l + (if fst v = l then snd v else 0)"
  by (simp add: accumulated_def)

lemma accumulated_absent: "l \<notin> fst ` set votes \<Longrightarrow> accumulated votes l = 0"
  by (induction votes) (auto simp: accumulated_def)

lemma map_of_foldl_bump:
  assumes "list_all (\<lambda>v. fst v \<noteq> ''__proto__'') votes"
  shows "map_of (foldl bump [] votes) l
          = (if l \<in> fst ` set votes then Some (accumulated votes l) else None)"
  using assms
proof (induction votes arbitrary: l rule: rev_induct)
  case Nil
  then show ?case by simp
next
  case (snoc v votes)
  then have IH: "\<And>l. map_of (foldl bump [] votes) l
          = (if l \<in> fst ` set votes then Some (accumulated votes l) else None)"
    and v: "fst v \<noteq> ''__proto__''"
    by simp_all
  have val: "(case map_of (foldl bump [] votes) (fst v) of None \<Rightarrow> 0 | Some x \<Rightarrow> x)
          = accumulated votes (fst v)"
    by (simp add: IH accumulated_absent)
  have step: "foldl bump [] (votes @ [v])
          = obj_set (foldl bump [] votes) (fst v) (accumulated votes (fst v) + snd v)"
    by (simp add: bump_def [of "foldl bump [] votes" v] val)
  show ?case
    unfolding step using v by (simp add: map_of_obj_set IH accumulated_snoc)
qed

section \<open>The accumulators of the multi-frame detection\<close>

lemma push_confidence_eq:
  assumes "emotion d \<notin> set OBJECT_PROTOTYPE_KEYS"
  shows "push_confidence obj d = Inr (push obj d)"
  using assms by (cases "map_of obj (emotion d)") (simp_all add: push_confidence_def obj_get_def push_def)

lemma count_emotions_eq:
  assumes "list_all (\<lambda>d. emotion d \<notin> set OBJECT_PROTOTYPE_KEYS) ds"
  shows "count_emotions ds obj = Inr (foldl push obj ds)"
  using assms by (induction ds arbitrary: obj) (simp_all add: push_confidence_eq)

lemma keys_foldl_push:
  "map fst (foldl push obj ds) = foldl add_key (map fst obj) (map emotion ds)"
  by (induction ds arbitrary: obj) (simp_all add: push_def keys_obj_set)

lemma map_of_foldl_push:
  assumes "list_all (\<lambda>d. emotion d \<noteq> ''__proto__'') ds"
  shows "map_of (foldl push [] ds) l
          = (if l \<in> emotion ` set ds then Some (confidences_of l ds) else None)"
  using assms
proof (induction ds arbitrary: l rule: rev_induct)
  case Nil
  then show ?case by simp
next
  case (snoc d ds)
  then have IH: "\<And>l. map_of (foldl push [] ds) l
          = (if l \<in> emotion ` set ds then Some (confidences_of l ds) else None)"
    and d: "emotion d \<noteq> ''__proto__''"
    by simp_all
  have absent: "confidences_of k ds = []" if "k \<notin> emotion ` set ds" for k
    using that by (auto simp: confidences_of_def filter_empty_conv)
  have val: "(case map_of (foldl push [] ds) (emotion d) of None \<Rightarrow> [] | Some cs \<Rightarrow> cs)
          = confidences_of (emotion d) ds"
    by (simp add: IH absent)
  have step: "foldl push [] (ds @ [d])
          = obj_set (foldl push [] ds) (emotion d) (confidences_of (emotion d) ds @ [confidence d])"
    by (simp add: push_def [of "foldl push [] ds" d] val)
  show ?case
    unfolding step using d by (simp add: map_of_obj_set IH confidences_of_def)
qed

lemma foldl_obj_set_fresh:
  assumes "distinct (map fst acc @ map fst es)" "''__proto__'' \<notin> fst ` set es"
  shows "foldl (\<lambda>avg e. obj_set avg (fst e) (g (snd e))) acc es = acc @ map (\<lambda>e. (fst e, g (snd e))) es"
  using assms
proof (induction es arbitrary: acc)
  case Nil
  then show ?case by simp
next
  case (Cons e es)
  from Cons.prems have fresh: "obj_set acc (fst e) (g (snd e)) = acc @ [(fst e, g (snd e))]"
    by (auto simp: obj_set_def)
  from Cons.prems have "distinct (map fst (acc @ [(fst e, g (snd e))]) @ map fst es)"
    by auto
  moreover from Cons.prems have "''__proto__'' \<notin> fst ` set es" by simp
  ultimately show ?case
    using Cons.IH [of "acc @ [(fst e, g (snd e))]"] by (simp add: fresh)
qed

lemma average_emotions_eq:
  assumes "distinct (map fst counts)" "''__proto__'' \<notin> fst ` set counts"
  shows "average_emotions counts = map (\<lambda>e. (fst e, average (snd e))) (Object_entries counts)"
proof -
  from assms(1) have "distinct (map fst [] @ map fst (Object_entries counts))"
    by (simp add: distinct_keys_Object_entries)
  moreover from assms(2) have "''__proto__'' \<notin> fst ` set (Object_entries counts)"
    by (simp add: set_Object_entries)
  ultimately show ?thesis
    unfolding average_emotions_def by (simp add: foldl_obj_set_fresh)
qed

lemma map_of_map_values:
  "map_of (map (\<lambda>e. (fst e, g (snd e))) xs) k = map_option g (map_of xs k)"
  by (induction xs) auto

lemma non_prototype_keys:
  assumes "list_all (\<lambda>k. k \<notin> set OBJECT_PROTOTYPE_KEYS) ks"
  shows "list_all (\<lambda>k. k \<noteq> ''__proto__'') ks"
  using assms proto_is_prototype_key by (auto simp: list_all_iff)

lemma foldl_add_key_plain:
  assumes "list_all (\<lambda>k. k \<noteq> ''__proto__'') ks"
  shows "set (foldl add_key [] ks) = set ks"
  using assms by (auto simp: set_foldl_add_key list_all_iff)

lemma in_object_value:
  assumes "distinct (map fst obj)" "e \<in> set obj"
  shows "map_of obj (fst e) = Some (snd e)"
  using assms by (cases e) simp

lemma list_all_mem: "list_all P xs \<Longrightarrow> x \<in> set xs \<Longrightarrow> P x"
  by (simp add: list_all_iff)

section \<open>The weighted fusion\<close>

lemma weighted_fusion_result:
  fixes input :: MultiModalEmotionInput
  defines "votes \<equiv> foldl bump [] (weighted_votes input)"
  assumes ok: "list_all (\<lambda>k. k \<notin> set OBJECT_PROTOTYPE_KEYS) (map fst (weighted_votes input))"
      and ne: "weighted_votes input \<noteq> []"
  shows "\<exists>m. first_highest m (Object_entries votes)
           \<and> weightedVotingFusion input =
               Inr \<lparr>finalEmotion = fst m, fusedConfidence = min (snd m) 1,
                    breakdown = expected_breakdown input, fusionMethod = ''weighted-voting''\<rparr>"
proof -
  from ok have cast: "cast_votes input (facialWeight input) 0.3 0.2 = Inr (votes, expected_breakdown input)"
    unfolding votes_def weighted_votes_def by (intro cast_votes_eq) (simp add: list_all_iff)
  have "set (map fst votes) = set (map fst (weighted_votes input))"
    unfolding votes_def keys_foldl_bump using non_prototype_keys [OF ok]
    by (simp add: foldl_add_key_plain)
  with ne have "votes \<noteq> []" by auto
  then have "Object_entries votes \<noteq> []"
    using set_Object_entries [of votes] by (metis set_empty)
  then have fh: "first_highest (hd (sort_descending (Object_entries votes))) (Object_entries votes)"
    by (rule sort_descending_first_highest)
  from \<open>Object_entries votes \<noteq> []\<close> have "sort_descending (Object_entries votes) \<noteq> []"
    by (simp add: sort_descending_def sort_key_eq_Nil_iff)
  then obtain m rest where s: "sort_descending (Object_entries votes) = m # rest"
    by (cases "sort_descending (Object_entries votes)") auto
  with fh have "first_highest m (Object_entries votes)" by simp
  moreover have "weightedVotingFusion input =
               Inr \<lparr>finalEmotion = fst m, fusedConfidence = min (snd m) 1,
                    breakdown = expected_breakdown input, fusionMethod = ''weighted-voting''\<rparr>"
    unfolding weightedVotingFusion_def cast by (simp add: s)
  ultimately show ?thesis by blast
qed

lemma votes_distinct: "distinct (map fst (foldl bump [] votes))"
  by (simp add: keys_foldl_bump distinct_foldl_add_key)


section \<open>The extractor\<close>

lemma keyword_rules_chain:
  "(if str_includes lt ''happy'' \<or> str_includes lt ''joy'' then Some ''Happy''
    else if str_includes lt ''sad'' \<or> str_includes lt ''unhappy'' then Some ''Sad''
    else if str_includes lt ''angry'' \<or> str_includes lt ''upset'' then Some ''Angry''
    else if str_includes lt ''afraid'' \<or> str_includes lt ''scared'' then Some ''Fearful''
    else if str_includes lt ''surprised'' \<or> str_includes lt ''amazed'' then Some ''Surprised''
    else if str_includes lt ''disgusted'' then Some ''Disgusted''
    else if str_includes lt ''neutral'' \<or> str_includes lt ''calm'' then Some ''Neutral''
    else if str_includes lt ''anxious'' \<or> str_includes lt ''worried'' then Some ''Anxious''
    else if str_includes lt ''excited'' then Some ''Excited''
    else if str_includes lt ''frustrated'' then Some ''Frustrated''
    else if str_includes lt ''confused'' then Some ''Confused''
    else None)
   = map_option snd (find (\<lambda>rule. list_ex (str_includes lt) (fst rule)) EXTRACTOR_KEYWORDS)"
  unfolding EXTRACTOR_KEYWORDS_def by (simp del: str_includes.simps)

text \<open>
  C5. For every text, \<open>extractEmotionFromText\<close> returns the first taxonomy name, in the
  order Happy .. Confused, that occurs in the lower-cased text; when none occurs, the label
  of the first rule of its keyword table (happy/joy, sad/unhappy, angry/upset,
  afraid/scared, surprised/amazed, disgusted, neutral/calm, anxious/worried, excited,
  frustrated, confused) with a keyword that occurs; and \<open>null\<close> when there is no match at
  all. It never raises and has no default label.
\<close>

theorem extract_follows_rule: "extractEmotionFromText text = extract_by_rule text"
proof (cases "text = []")
  case True
  have "extract_by_rule [] = None"
    unfolding extract_by_rule_def EXTRACTOR_KEYWORDS_def
    by (simp add: toLowerCase_def STANDARD_EMOTIONS_def)
  with True show ?thesis
    by (simp add: extractEmotionFromText_def)
next
  case False
  show ?thesis
  proof (cases "find (\<lambda>name. str_includes (toLowerCase text) (toLowerCase name)) STANDARD_EMOTIONS")
    case None
    with False show ?thesis
      unfolding extractEmotionFromText_def extract_by_rule_def Let_def
      by (simp only: if_False option.case keyword_rules_chain)
  next
    case (Some name)
    with False show ?thesis
      unfolding extractEmotionFromText_def extract_by_rule_def Let_def
      by (simp only: if_False option.case)
  qed
qed

section \<open>The fallbacks\<close>

text \<open>
  C7. When the facial, the voice and the text channel are all absent, \<open>fuseEmotions\<close>
  returns, under either strategy, the final emotion Neutral with confidence 0.5, a
  breakdown with no facial, voice or text entry, and the name of the strategy's method.
  It is a result, not an error.
\<close>

theorem fuse_all_absent:
  "fuseEmotions \<lparr>facialEmotion = None, voiceEmotion = None, textEmotion = None\<rparr> strategy =
     Inr \<lparr>finalEmotion = ''Neutral'', fusedConfidence = 0.5,
          breakdown = \<lparr>bd_facial = None, bd_voice = None, bd_text = None\<rparr>,
          fusionMethod = (if strategy = ''majority'' then ''majority-voting'' else ''weighted-voting'')\<rparr>"
  by (simp add: fusion_defs Object_entries_def)

lemma collect_detections_replicate_None: "collect_detections (replicate n None) = []"
  by (induction n) simp_all

text \<open>
  C8. When each of the \<open>numFrames\<close> calls of the per-frame detector yields no detection,
  \<open>detectFacialExpressionMultiFrame\<close> returns \<open>null\<close>: no Neutral result and no result of
  confidence zero.
\<close>

theorem multi_frame_no_detection:
  "detectFacialExpressionMultiFrame (replicate numFrames None) = Inr None"
  by (simp add: detectFacialExpressionMultiFrame_def collect_detections_replicate_None)

section \<open>The face-api label map\<close>

lemma map_face_api_seven:
  "map mapFaceApiEmotion
     [''neutral'', ''happy'', ''sad'', ''angry'', ''fearful'', ''disgusted'', ''surprised'']
   = map JString
     [''Neutral'', ''Happy'', ''Sad'', ''Angry'', ''Fearful'', ''Disgusted'', ''Surprised'']"
  by (simp add: mapFaceApiEmotion_def emotionMap_def obj_get_def)

lemma map_face_api_other:
  assumes "k \<notin> set OBJECT_PROTOTYPE_KEYS" "k \<notin> fst ` set emotionMap"
  shows "mapFaceApiEmotion k = JString k"
proof -
  from assms(2) have "map_of emotionMap k = None"
    by (simp only: map_of_eq_None_iff simp_thms)
  with assms(1) show ?thesis
    by (simp add: mapFaceApiEmotion_def obj_get_def)
qed

text \<open>
  C10. \<open>mapFaceApiEmotion\<close> is meant to return the taxonomy name for the seven face-api
  labels and every other string unchanged. For the string \<open>constructor\<close> the lookup in the
  object literal finds the member inherited from \<open>Object.prototype\<close>, and the function
  returns that member instead of the string.
\<close>

theorem map_face_api_constructor:
  "mapFaceApiEmotion ''constructor'' = JPrototypeMember ''constructor''"
  by (simp add: mapFaceApiEmotion_def emotionMap_def obj_get_def OBJECT_PROTOTYPE_KEYS_def)

section \<open>The listing order of the keys\<close>

lemma sorted_precedes:
  assumes "sorted (map f xs)" "precedes a b xs" "b \<in> set xs"
  shows "f a \<le> f b"
proof -
  from assms(2) obtain pre post where xs: "xs = pre @ a # post" and pre: "b \<notin> set pre"
    unfolding precedes_iff by blast
  with assms(3) have "b = a \<or> b \<in> set post"
    by auto
  moreover from assms(1) xs have "\<forall>y\<in>set post. f a \<le> f y"
    by (simp add: sorted_append)
  ultimately show ?thesis
    by auto
qed

lemma precedes_within_front:
  assumes "precedes b a (xs @ ys)" "b \<in> set xs"
  shows "precedes b a xs"
proof -
  from assms(2) have "takeWhile (\<lambda>x. x \<noteq> b) (xs @ ys) = takeWhile (\<lambda>x. x \<noteq> b) xs"
    by (induction xs) auto
  with assms show ?thesis
    by (simp add: precedes_def)
qed

lemma listed_before_contra:
  assumes lb: "listed_before a b (map fst obj)"
      and a: "a \<in> set (map fst obj)"
      and p: "precedes b a (map fst (Object_entries obj))"
  shows False
proof -
  let ?IK = "map fst (sort_key (\<lambda>(k, v). decimal k) (filter (\<lambda>(k, v). is_array_index k) obj))"
  let ?NK = "filter (\<lambda>k. \<not> is_array_index k) (map fst obj)"
  have keys: "map fst (Object_entries obj) = ?IK @ ?NK"
    by (rule keys_Object_entries)
  have IK: "set ?IK = {k \<in> set (map fst obj). is_array_index k}"
    by force
  have sorted: "sorted (map decimal ?IK)"
    using sorted_sort_key [of "\<lambda>(k, v). decimal k" "filter (\<lambda>(k, v). is_array_index k) obj"]
    by (simp add: comp_def split_def)
  from lb have ne: "a \<noteq> b"
    by (simp add: listed_before_def)
  from p have b: "b \<in> set (?IK @ ?NK)"
    by (simp only: precedes_def keys)
  show False
  proof (cases "is_array_index a")
    case True
    with a IK have aIK: "a \<in> set ?IK"
      by blast
    show False
    proof (cases "is_array_index b")
      case ib: True
      with b IK have "b \<in> set ?IK"
        by auto
      with p have "precedes b a ?IK"
        unfolding keys by (rule precedes_within_front)
      with sorted have "decimal b \<le> decimal a"
        using aIK by (rule sorted_precedes)
      moreover from lb True ib have "decimal a < decimal b"
        by (simp add: listed_before_def)
      ultimately show False
        by simp
    next
      case False
      with IK have "b \<notin> set ?IK"
        by blast
      then have "takeWhile (\<lambda>x. x \<noteq> b) (?IK @ ?NK) = ?IK @ takeWhile (\<lambda>x. x \<noteq> b) ?NK"
        by (intro takeWhile_append2) blast
      with p aIK show False
        unfolding keys by (simp add: precedes_def)
    qed
  next
    case False
    with lb have ib: "\<not> is_array_index b" and ab: "precedes a b (map fst obj)"
      by (simp_all add: listed_before_def split: if_splits)
    from p ib False have "precedes b a (map fst obj)"
      by (rule precedes_Object_entries)
    from precedes_antisym [OF ab this] ne show False
      by simp
  qed
qed

lemma listed_before_keys:
  assumes "listed_before a b labels" "a \<noteq> ''__proto__''"
  shows "listed_before a b (foldl add_key [] labels)"
proof (cases "is_array_index a \<or> is_array_index b")
  case True
  with assms(1) show ?thesis
    by (auto simp: listed_before_def split: if_splits)
next
  case False
  with assms(1) have "precedes a b labels" and ne: "a \<noteq> b"
    by (simp_all add: listed_before_def)
  then have "precedes a b (foldl add_key [] labels)"
    using assms(2) by (intro precedes_foldl_add_key)
  with False ne show ?thesis
    by (simp add: listed_before_def)
qed

section \<open>Ties in the weighted fusion\<close>

lemma normalize_sleepy: "normalizeEmotion ''sleepy'' = ''Sleepy''"
  by (simp add: normalizeEmotion_def str_defs)

lemma normalize_grumpy: "normalizeEmotion ''grumpy'' = ''Grumpy''"
  by (simp add: normalizeEmotion_def str_defs)

lemma normalize_seven: "normalizeEmotion ''7'' = ''7''"
  by (simp add: normalizeEmotion_def str_defs)

lemma extract_grumpy: "extractEmotionFromText ''grumpy'' = None"
  by (simp add: extractEmotionFromText_def str_defs)

lemma extract_seven: "extractEmotionFromText ''7'' = None"
  by (simp add: extractEmotionFromText_def str_defs)

lemma sleepy_grumpy_votes:
  "weighted_votes \<lparr>facialEmotion = Some \<lparr>emotion = ''sleepy'', confidence = 0.4\<rparr>,
                   voiceEmotion = Some ''grumpy'', textEmotion = None\<rparr>
     = [(''Sleepy'', 0.3), (''Grumpy'', 0.3)]"
  by (simp add: weighted_votes_def channel_votes_def facialWeight_def extract_or_raw_def
      normalize_sleepy normalize_grumpy extract_grumpy)

text \<open>
  C6, as the code has it. Under the weighted strategy, when no label of a present channel
  names a member of \<open>Object.prototype\<close> and two distinct normalised labels end with equal
  accumulated weight, the one that \<open>Object.entries\<close> lists first wins over the other: a
  label that is an array index (the canonical numeral of an integer below \<open>2^32 - 1\<close>)
  before every other label and before every array index of greater value, and otherwise
  the label inserted first (facial before voice before text).
\<close>

theorem weighted_tie_listed_first:
  assumes ok: "list_all (\<lambda>k. k \<notin> set OBJECT_PROTOTYPE_KEYS) (map fst (weighted_votes input))"
      and a: "a \<in> set (map fst (weighted_votes input))"
      and b: "b \<in> set (map fst (weighted_votes input))"
      and order: "listed_before a b (map fst (weighted_votes input))"
      and tie: "accumulated (weighted_votes input) a = accumulated (weighted_votes input) b"
  shows "\<exists>r. weightedVotingFusion input = Inr r \<and> finalEmotion r \<noteq> b"
proof -
  let ?L = "weighted_votes input"
  let ?votes = "foldl bump [] ?L"
  from b have "?L \<noteq> []" by auto
  from weighted_fusion_result [OF ok this] obtain m where
    fh: "first_highest m (Object_entries ?votes)" and
    res: "weightedVotingFusion input =
               Inr \<lparr>finalEmotion = fst m, fusedConfidence = min (snd m) 1,
                    breakdown = expected_breakdown input, fusionMethod = ''weighted-voting''\<rparr>"
    by blast
  have npk: "list_all (\<lambda>k. k \<noteq> ''__proto__'') (map fst ?L)"
    by (rule non_prototype_keys [OF ok])
  then have np: "list_all (\<lambda>v. fst v \<noteq> ''__proto__'') ?L"
    by (simp add: list_all_iff)
  have dist: "distinct (map fst ?votes)" by (rule votes_distinct)
  have "fst m \<noteq> b"
  proof
    assume mb: "fst m = b"
    from fh have "m \<in> set ?votes"
      by (auto dest: first_highest_mem simp: set_Object_entries)
    with dist have "map_of ?votes (fst m) = Some (snd m)" by (rule in_object_value)
    with mb b have m: "snd m = accumulated ?L b"
      by (simp add: map_of_foldl_bump [OF np])
    from a have "map_of ?votes a = Some (accumulated ?L a)"
      by (simp add: map_of_foldl_bump [OF np])
    then have mem: "(a, accumulated ?L a) \<in> set (Object_entries ?votes)"
      by (simp add: map_of_SomeD set_Object_entries)
    have same: "snd (a, accumulated ?L a) = snd m"
      using m tie by simp
    have dist': "distinct (map fst (Object_entries ?votes))"
      using dist by (rule distinct_keys_Object_entries)
    have "precedes (fst m) a (map fst (Object_entries ?votes))"
      using first_highest_precedes [OF fh mem same dist'] by (simp only: fst_conv)
    then have p: "precedes b a (map fst (Object_entries ?votes))"
      by (simp only: mb)
    have "a \<noteq> ''__proto__''"
      using list_all_mem [OF npk a] .
    with order have "listed_before a b (foldl add_key [] (map fst ?L))"
      by (rule listed_before_keys)
    then have lb: "listed_before a b (map fst ?votes)"
      by (simp add: keys_foldl_bump)
    from a have "a \<in> set (foldl add_key [] (map fst ?L))"
      using npk by (simp only: foldl_add_key_plain)
    then have "a \<in> set (map fst ?votes)"
      by (simp add: keys_foldl_bump)
    with lb show False
      using p by (rule listed_before_contra)
  qed
  with res show ?thesis by simp
qed

theorem weighted_tie_listed_first_witness:
  "(let input = \<lparr>facialEmotion = Some \<lparr>emotion = ''sleepy'', confidence = 0.4\<rparr>,
             voiceEmotion = Some ''grumpy'', textEmotion = None\<rparr>
    in list_all (\<lambda>k. k \<notin> set OBJECT_PROTOTYPE_KEYS) (map fst (weighted_votes input))
       \<and> ''Sleepy'' \<in> set (map fst (weighted_votes input))
       \<and> ''Grumpy'' \<in> set (map fst (weighted_votes input))
       \<and> listed_before ''Sleepy'' ''Grumpy'' (map fst (weighted_votes input))
       \<and> accumulated (weighted_votes input) ''Sleepy'' = accumulated (weighted_votes input) ''Grumpy''
       \<and> (\<exists>r. weightedVotingFusion input = Inr r \<and> finalEmotion r \<noteq> ''Grumpy''))"
proof -
  let ?I = "\<lparr>facialEmotion = Some \<lparr>emotion = ''sleepy'', confidence = 0.4\<rparr>,
             voiceEmotion = Some ''grumpy'', textEmotion = None\<rparr>"
  have h1: "list_all (\<lambda>k. k \<notin> set OBJECT_PROTOTYPE_KEYS) (map fst (weighted_votes ?I))"
    unfolding sleepy_grumpy_votes by (simp add: OBJECT_PROTOTYPE_KEYS_def)
  have h2: "''Sleepy'' \<in> set (map fst (weighted_votes ?I))"
    unfolding sleepy_grumpy_votes by simp
  have h3: "''Grumpy'' \<in> set (map fst (weighted_votes ?I))"
    unfolding sleepy_grumpy_votes by simp
  have h4: "listed_before ''Sleepy'' ''Grumpy'' (map fst (weighted_votes ?I))"
    unfolding sleepy_grumpy_votes
    by (simp add: listed_before_def precedes_def is_array_index_def is_digit_def)
  have h5: "accumulated (weighted_votes ?I) ''Sleepy'' = accumulated (weighted_votes ?I) ''Grumpy''"
    unfolding sleepy_grumpy_votes by (simp add: accumulated_def)
  show ?thesis
    unfolding Let_def
    by (rule conjI [OF h1 conjI [OF h2 conjI [OF h3 conjI [OF h4 conjI [OF h5
          weighted_tie_listed_first [OF h1 h2 h3 h4 h5]]]]]])
qed

text \<open>
  The claim as stated, that the label inserted first always wins, fails for a label that
  is an array index. A facial \<open>sleepy\<close> of low confidence and a voice \<open>7\<close> both weigh 0.3,
  and the voice label, inserted second, wins.
\<close>

lemma sleepy_seven_votes:
  "weighted_votes \<lparr>facialEmotion = Some \<lparr>emotion = ''sleepy'', confidence = 0.4\<rparr>,
                   voiceEmotion = Some ''7'', textEmotion = None\<rparr>
     = [(''Sleepy'', 0.3), (''7'', 0.3)]"
  by (simp add: weighted_votes_def channel_votes_def facialWeight_def extract_or_raw_def
      normalize_sleepy normalize_seven extract_seven)

theorem weighted_tie_array_index_counterexample:
  "weighted_votes \<lparr>facialEmotion = Some \<lparr>emotion = ''sleepy'', confidence = 0.4\<rparr>,
                   voiceEmotion = Some ''7'', textEmotion = None\<rparr>
     = [(''Sleepy'', 0.3), (''7'', 0.3)]
   \<and> weightedVotingFusion \<lparr>facialEmotion = Some \<lparr>emotion = ''sleepy'', confidence = 0.4\<rparr>,
                           voiceEmotion = Some ''7'', textEmotion = None\<rparr>
     = Inr \<lparr>finalEmotion = ''7'', fusedConfidence = 0.3,
            breakdown = \<lparr>bd_facial = Some ''Sleepy'', bd_voice = Some ''7'', bd_text = None\<rparr>,
            fusionMethod = ''weighted-voting''\<rparr>"
proof (rule conjI)
  show "weighted_votes \<lparr>facialEmotion = Some \<lparr>emotion = ''sleepy'', confidence = 0.4\<rparr>,
                   voiceEmotion = Some ''7'', textEmotion = None\<rparr>
     = [(''Sleepy'', 0.3), (''7'', 0.3)]"
    by (rule sleepy_seven_votes)
  show "weightedVotingFusion \<lparr>facialEmotion = Some \<lparr>emotion = ''sleepy'', confidence = 0.4\<rparr>,
                           voiceEmotion = Some ''7'', textEmotion = None\<rparr>
     = Inr \<lparr>finalEmotion = ''7'', fusedConfidence = 0.3,
            breakdown = \<lparr>bd_facial = Some ''Sleepy'', bd_voice = Some ''7'', bd_text = None\<rparr>,
            fusionMethod = ''weighted-voting''\<rparr>"
    by (simp add: fusion_defs obj_defs normalize_sleepy normalize_seven extract_seven)
qed

section \<open>Averages over the frames\<close>

lemma multi_frame_example:
  "detectFacialExpressionMultiFrame
     [Some \<lparr>emotion = ''Happy'', confidence = round_to_double 0.8\<rparr>,
      Some \<lparr>emotion = ''Happy'', confidence = round_to_double 0.8\<rparr>,
      Some \<lparr>emotion = ''Happy'', confidence = round_to_double 0.8\<rparr>,
      Some \<lparr>emotion = ''Sad'', confidence = round_to_double 0.6\<rparr>,
      Some \<lparr>emotion = ''Sad'', confidence = round_to_double 0.6\<rparr>]
   = Inr (Some \<lparr>dominantEmotion = ''Happy'',
                 dominantConfidence = round_to_double 0.8000000000000002,
                 allEmotions = [(''Happy'', round_to_double 0.8000000000000002),
                                (''Sad'', round_to_double 0.6)]\<rparr>)"
  by (simp add: multi_frame_defs obj_defs round_rules)

text \<open>
  C4, as the code has it. For every non-empty list of collected samples whose labels are
  neither array indices nor names of members of \<open>Object.prototype\<close> (the seven expression
  names of face-api are neither), and whose confidences are doubles between 0 and 1, the
  result is present; \<open>allEmotions\<close> has exactly the raw labels of the samples as keys, each
  with the average of the confidences of its samples as the doubles compute it: the
  confidences added one by one to 0, in the order of the samples, and the sum divided by
  their number, every sum and the quotient rounded; the dominant pair is an entry of
  \<open>allEmotions\<close> of highest average; and every other group encountered before the dominant
  one has a smaller average, so that ties go to the group encountered first. Three samples
  Happy 0.8 and two samples Sad 0.6 give Happy with 0.8000000000000002, and Happy
  0.8000000000000002 and Sad 0.6 in \<open>allEmotions\<close>.
\<close>

theorem multi_frame_average_dominant:
  assumes ne: "detections \<noteq> []"
      and labels: "list_all (\<lambda>d. emotion d \<notin> set OBJECT_PROTOTYPE_KEYS
                              \<and> \<not> is_array_index (emotion d)) detections"
      and doubles: "list_all (\<lambda>d. is_probability (confidence d)) detections"
  shows "(\<exists>m. detectFacialExpressionMultiFrame (map Some detections) = Inr (Some m)
       \<and> fst ` set (allEmotions m) = emotion ` set detections
       \<and> (\<forall>d\<in>set detections.
             map_of (allEmotions m) (emotion d) = Some (average (confidences_of (emotion d) detections)))
       \<and> map_of (allEmotions m) (dominantEmotion m) = Some (dominantConfidence m)
       \<and> (\<forall>e\<in>set (allEmotions m). snd e \<le> dominantConfidence m)
       \<and> (\<forall>e\<in>set (allEmotions m).
             fst e \<noteq> dominantEmotion m
             \<and> precedes (fst e) (dominantEmotion m) (map emotion detections)
             \<longrightarrow> snd e < dominantConfidence m))
     \<and> detectFacialExpressionMultiFrame
         [Some \<lparr>emotion = ''Happy'', confidence = round_to_double 0.8\<rparr>,
      Some \<lparr>emotion = ''Happy'', confidence = round_to_double 0.8\<rparr>,
      Some \<lparr>emotion = ''Happy'', confidence = round_to_double 0.8\<rparr>,
      Some \<lparr>emotion = ''Sad'', confidence = round_to_double 0.6\<rparr>,
      Some \<lparr>emotion = ''Sad'', confidence = round_to_double 0.6\<rparr>]
       = Inr (Some \<lparr>dominantEmotion = ''Happy'',
                 dominantConfidence = round_to_double 0.8000000000000002,
                 allEmotions = [(''Happy'', round_to_double 0.8000000000000002),
                                (''Sad'', round_to_double 0.6)]\<rparr>)"
proof (rule conjI)
  show "(\<exists>m. detectFacialExpressionMultiFrame (map Some detections) = Inr (Some m)
       \<and> fst ` set (allEmotions m) = emotion ` set detections
       \<and> (\<forall>d\<in>set detections.
             map_of (allEmotions m) (emotion d) = Some (average (confidences_of (emotion d) detections)))
       \<and> map_of (allEmotions m) (dominantEmotion m) = Some (dominantConfidence m)
       \<and> (\<forall>e\<in>set (allEmotions m). snd e \<le> dominantConfidence m)
       \<and> (\<forall>e\<in>set (allEmotions m).
             fst e \<noteq> dominantEmotion m
             \<and> precedes (fst e) (dominantEmotion m) (map emotion detections)
             \<longrightarrow> snd e < dominantConfidence m))"
  proof -
    let ?counts = "foldl push [] detections"
    let ?g = "\<lambda>e :: string \<times> real list. (fst e, average (snd e))"
    let ?avg = "map ?g (Object_entries ?counts)"
    have ok: "list_all (\<lambda>d. emotion d \<notin> set OBJECT_PROTOTYPE_KEYS) detections"
      using labels by (simp add: list_all_iff)
    have plain: "\<not> is_array_index k" if "k \<in> set (map emotion detections)" for k
      using labels that by (auto simp: list_all_iff)
    have np: "list_all (\<lambda>d. emotion d \<noteq> ''__proto__'') detections"
      using ok proto_is_prototype_key by (auto simp: list_all_iff)
    then have np_labels: "list_all (\<lambda>k. k \<noteq> ''__proto__'') (map emotion detections)"
      by (simp add: list_all_iff)
    have collect: "collect_detections (map Some detections) = detections"
      by (induction detections) simp_all
    have count: "count_emotions detections [] = Inr ?counts"
      using ok by (rule count_emotions_eq)
    have keys: "map fst ?counts = foldl add_key [] (map emotion detections)"
      by (simp add: keys_foldl_push)
    have "set (map fst ?counts) = set (map emotion detections)"
      unfolding keys using np by (intro foldl_add_key_plain) (simp add: list_all_iff)
    then have keyset: "fst ` set ?counts = emotion ` set detections"
      by simp
    have dist: "distinct (map fst ?counts)"
      by (simp add: keys distinct_foldl_add_key)
    have "''__proto__'' \<notin> fst ` set ?counts"
      using keyset np by (auto simp: list_all_iff)
    with dist have avg: "average_emotions ?counts = ?avg"
      by (rule average_emotions_eq)
    have entries: "Object_entries ?avg = ?avg"
      by (simp add: Object_entries_map_values Object_entries_idem)
    have avg_keys: "map fst ?avg = map fst (Object_entries ?counts)"
      by (simp add: comp_def)
    have avg_dist: "distinct (map fst ?avg)"
      unfolding avg_keys using dist by (rule distinct_keys_Object_entries)
    from ne keyset have "?counts \<noteq> []" by auto
    then have "Object_entries ?counts \<noteq> []"
      using set_Object_entries [of ?counts] by (metis set_empty)
    then have "?avg \<noteq> []"
      by simp
    then obtain e es where split: "?avg = e # es"
      by (cases ?avg) auto
    define dom where "dom = foldl (\<lambda>prev current. if snd current > snd prev then current else prev) e es"
    have fh: "first_highest dom ?avg"
      unfolding split dom_def by (rule reduce_first_highest)
    have red: "reduce_dominant (Object_entries ?avg) = Inr dom"
      unfolding entries by (simp add: split reduce_dominant_def dom_def)
    let ?m = "\<lparr>dominantEmotion = fst dom, dominantConfidence = snd dom, allEmotions = ?avg\<rparr>"
    have result: "detectFacialExpressionMultiFrame (map Some detections) = Inr (Some ?m)"
      using ne by (simp add: detectFacialExpressionMultiFrame_def collect count Let_def avg red)
    have c1: "fst ` set ?avg = emotion ` set detections"
      using keyset by (simp add: image_image set_Object_entries)
    have map_avg: "map_of ?avg k = map_option average (map_of ?counts k)" for k
    proof -
      have "map_of ?avg k = map_option average (map_of (Object_entries ?counts) k)"
        by (rule map_of_map_values)
      then show ?thesis
        by (simp add: map_of_Object_entries [OF dist])
    qed
    have c2: "map_of ?avg (emotion d) = Some (average (confidences_of (emotion d) detections))"
      if "d \<in> set detections" for d
    proof -
      have "map_of ?counts (emotion d) = Some (confidences_of (emotion d) detections)"
        using that by (simp add: map_of_foldl_push [OF np])
      then show ?thesis
        by (simp only: map_avg option.map)
    qed
    have c3: "map_of ?avg (fst dom) = Some (snd dom)"
      using avg_dist first_highest_mem [OF fh] by (rule in_object_value)
    have c4: "snd x \<le> snd dom" if "x \<in> set ?avg" for x
      using fh that by (rule first_highest_max)
    have label: "fst x \<in> set (map emotion detections)" if "x \<in> set ?avg" for x
    proof -
      from that have "fst x \<in> fst ` set ?avg"
        by (rule imageI)
      also note c1
      finally show ?thesis
        by simp
    qed
    have c5: "snd x < snd dom"
      if x: "x \<in> set ?avg" and other: "fst x \<noteq> fst dom"
        and before: "precedes (fst x) (fst dom) (map emotion detections)" for x
    proof (rule ccontr)
      assume "\<not> snd x < snd dom"
      with c4 [OF x] have tie: "snd x = snd dom"
        by simp
      have "precedes (fst dom) (fst x) (map fst ?avg)"
        using fh x tie avg_dist by (rule first_highest_precedes)
      then have p: "precedes (fst dom) (fst x) (map fst (Object_entries ?counts))"
        by (simp only: avg_keys)
      have mem: "fst x \<in> set (map emotion detections)"
        using x by (rule label)
      have "\<not> is_array_index (fst x)" "\<not> is_array_index (fst dom)"
        using plain [OF mem] plain [OF label [OF first_highest_mem [OF fh]]] .
      with other before have lb: "listed_before (fst x) (fst dom) (map emotion detections)"
        by (simp add: listed_before_def)
      have "fst x \<noteq> ''__proto__''"
        using list_all_mem [OF np_labels mem] .
      with lb have "listed_before (fst x) (fst dom) (foldl add_key [] (map emotion detections))"
        by (rule listed_before_keys)
      then have lb': "listed_before (fst x) (fst dom) (map fst ?counts)"
        by (simp only: keys)
      from mem have "fst x \<in> set (foldl add_key [] (map emotion detections))"
        using np_labels by (simp only: foldl_add_key_plain)
      then have "fst x \<in> set (map fst ?counts)"
        by (simp only: keys)
      with lb' show False
        using p by (rule listed_before_contra)
    qed
    have sel: "allEmotions ?m = ?avg" "dominantEmotion ?m = fst dom" "dominantConfidence ?m = snd dom"
      by simp_all
    show ?thesis
    proof (intro exI [of _ ?m] conjI ballI impI; (unfold sel)?)
      show "detectFacialExpressionMultiFrame (map Some detections) = Inr (Some ?m)"
        by (rule result)
      show "fst ` set ?avg = emotion ` set detections"
        by (rule c1)
      show "map_of ?avg (emotion d) = Some (average (confidences_of (emotion d) detections))"
        if "d \<in> set detections" for d
        using that by (rule c2)
      show "map_of ?avg (fst dom) = Some (snd dom)"
        by (rule c3)
      show "snd x \<le> snd dom" if "x \<in> set ?avg" for x
        using that by (rule c4)
      show "snd x < snd dom"
        if "x \<in> set ?avg"
          and "fst x \<noteq> fst dom \<and> precedes (fst x) (fst dom) (map emotion detections)" for x
        using that by (intro c5) simp_all
    qed
  qed
qed (rule multi_frame_example)

theorem multi_frame_average_dominant_witness:
  "(let detections =
      [\<lparr>emotion = ''Happy'', confidence = round_to_double 0.8\<rparr>,
      \<lparr>emotion = ''Happy'', confidence = round_to_double 0.8\<rparr>,
      \<lparr>emotion = ''Happy'', confidence = round_to_double 0.8\<rparr>,
      \<lparr>emotion = ''Sad'', confidence = round_to_double 0.6\<rparr>,
      \<lparr>emotion = ''Sad'', confidence = round_to_double 0.6\<rparr>]
    in detections \<noteq> []
       \<and> list_all (\<lambda>d. emotion d \<notin> set OBJECT_PROTOTYPE_KEYS
                       \<and> \<not> is_array_index (emotion d)) detections
       \<and> list_all (\<lambda>d. is_probability (confidence d)) detections
       \<and> ((\<exists>m. detectFacialExpressionMultiFrame (map Some detections) = Inr (Some m)
       \<and> fst ` set (allEmotions m) = emotion ` set detections
       \<and> (\<forall>d\<in>set detections.
             map_of (allEmotions m) (emotion d) = Some (average (confidences_of (emotion d) detections)))
       \<and> map_of (allEmotions m) (dominantEmotion m) = Some (dominantConfidence m)
       \<and> (\<forall>e\<in>set (allEmotions m). snd e \<le> dominantConfidence m)
       \<and> (\<forall>e\<in>set (allEmotions m).
             fst e \<noteq> dominantEmotion m
             \<and> precedes (fst e) (dominantEmotion m) (map emotion detections)
             \<longrightarrow> snd e < dominantConfidence m))
     \<and> detectFacialExpressionMultiFrame
         [Some \<lparr>emotion = ''Happy'', confidence = round_to_double 0.8\<rparr>,
      Some \<lparr>emotion = ''Happy'', confidence = round_to_double 0.8\<rparr>,
      Some \<lparr>emotion = ''Happy'', confidence = round_to_double 0.8\<rparr>,
      Some \<lparr>emotion = ''Sad'', confidence = round_to_double 0.6\<rparr>,
      Some \<lparr>emotion = ''Sad'', confidence = round_to_double 0.6\<rparr>]
       = Inr (Some \<lparr>dominantEmotion = ''Happy'',
                 dominantConfidence = round_to_double 0.8000000000000002,
                 allEmotions = [(''Happy'', round_to_double 0.8000000000000002),
                                (''Sad'', round_to_double 0.6)]\<rparr>)))"
proof -
  let ?D = "[\<lparr>emotion = ''Happy'', confidence = round_to_double 0.8\<rparr>,
      \<lparr>emotion = ''Happy'', confidence = round_to_double 0.8\<rparr>,
      \<lparr>emotion = ''Happy'', confidence = round_to_double 0.8\<rparr>,
      \<lparr>emotion = ''Sad'', confidence = round_to_double 0.6\<rparr>,
      \<lparr>emotion = ''Sad'', confidence = round_to_double 0.6\<rparr>]"
  have h1: "?D \<noteq> []"
    by simp
  have h2: "list_all (\<lambda>d. emotion d \<notin> set OBJECT_PROTOTYPE_KEYS \<and> \<not> is_array_index (emotion d)) ?D"
    by (simp add: obj_defs)
  have h3: "list_all (\<lambda>d. is_probability (confidence d)) ?D"
    by (simp add: is_probability_def round_rules)
  show ?thesis
    unfolding Let_def
    by (rule conjI [OF h1 conjI [OF h2 conjI [OF h3 multi_frame_average_dominant [OF h1 h2 h3]]]])
qed

lemma multi_frame_example_face_api:
  "detectFacialExpressionMultiFrame
     [Some \<lparr>emotion = ''happy'', confidence = round_to_double 0.8\<rparr>,
      Some \<lparr>emotion = ''happy'', confidence = round_to_double 0.8\<rparr>,
      Some \<lparr>emotion = ''happy'', confidence = round_to_double 0.8\<rparr>,
      Some \<lparr>emotion = ''sad'', confidence = round_to_double 0.6\<rparr>,
      Some \<lparr>emotion = ''sad'', confidence = round_to_double 0.6\<rparr>]
   = Inr (Some \<lparr>dominantEmotion = ''happy'',
                 dominantConfidence = round_to_double 0.8000000000000002,
                 allEmotions = [(''happy'', round_to_double 0.8000000000000002),
                                (''sad'', round_to_double 0.6)]\<rparr>)"
  by (simp add: multi_frame_defs obj_defs round_rules)

text \<open>
  The claim as stated fails on its own instance. The arithmetic mean of three confidences
  0.8 is 0.8, and the claim gives 0.8 as the confidence of the dominant emotion; the
  source adds in doubles, where \<open>0.8 + 0.8 + 0.8\<close> is \<open>2.4000000000000004\<close>, and returns
  0.8000000000000002, the double next to 0.8. It does so too when the labels are spelt as
  face-api spells them.
\<close>

theorem multi_frame_rounding_counterexample:
  "detectFacialExpressionMultiFrame
     [Some \<lparr>emotion = ''Happy'', confidence = round_to_double 0.8\<rparr>,
      Some \<lparr>emotion = ''Happy'', confidence = round_to_double 0.8\<rparr>,
      Some \<lparr>emotion = ''Happy'', confidence = round_to_double 0.8\<rparr>,
      Some \<lparr>emotion = ''Sad'', confidence = round_to_double 0.6\<rparr>,
      Some \<lparr>emotion = ''Sad'', confidence = round_to_double 0.6\<rparr>]
   = Inr (Some \<lparr>dominantEmotion = ''Happy'',
                 dominantConfidence = round_to_double 0.8000000000000002,
                 allEmotions = [(''Happy'', round_to_double 0.8000000000000002),
                                (''Sad'', round_to_double 0.6)]\<rparr>)
   \<and> detectFacialExpressionMultiFrame
     [Some \<lparr>emotion = ''happy'', confidence = round_to_double 0.8\<rparr>,
      Some \<lparr>emotion = ''happy'', confidence = round_to_double 0.8\<rparr>,
      Some \<lparr>emotion = ''happy'', confidence = round_to_double 0.8\<rparr>,
      Some \<lparr>emotion = ''sad'', confidence = round_to_double 0.6\<rparr>,
      Some \<lparr>emotion = ''sad'', confidence = round_to_double 0.6\<rparr>]
   = Inr (Some \<lparr>dominantEmotion = ''happy'',
                 dominantConfidence = round_to_double 0.8000000000000002,
                 allEmotions = [(''happy'', round_to_double 0.8000000000000002),
                                (''sad'', round_to_double 0.6)]\<rparr>)
   \<and> (round_to_double 0.8 + round_to_double 0.8 + round_to_double 0.8) / 3 = round_to_double 0.8
   \<and> round_to_double 0.8000000000000002 \<noteq> round_to_double 0.8"
proof (intro conjI)
  show "round_to_double 0.8000000000000002 \<noteq> round_to_double 0.8"
    by (simp add: round_rules)
qed (rule multi_frame_example, rule multi_frame_example_face_api, simp)

lemma multi_frame_prototype_name:
  "detectFacialExpressionMultiFrame [Some \<lparr>emotion = ''constructor'', confidence = 0.5\<rparr>] = Inl TypeError"
  by (simp add: multi_frame_defs obj_get_def OBJECT_PROTOTYPE_KEYS_def)


section \<open>Trimming and keywords\<close>

lemma str_includes_sublist: "str_includes s k \<longleftrightarrow> sublist k s"
  by (induction s) (simp_all add: sublist_Cons_right)

lemma sublist_drop_head:
  assumes "sublist k (x # xs)" "x \<notin> set k"
  shows "sublist k xs"
proof -
  from assms(2) have "\<not> prefix k (x # xs) \<or> k = []"
    by (cases k) auto
  with assms(1) show ?thesis
    by (auto simp: sublist_Cons_right)
qed

lemma sublist_drop_front:
  assumes "sublist k (xs @ ys)" "set xs \<inter> set k = {}"
  shows "sublist k ys"
  using assms by (induction xs) (auto dest: sublist_drop_head)

lemma sublist_drop_back:
  assumes "sublist k (ys @ zs)" "set zs \<inter> set k = {}"
  shows "sublist k ys"
proof -
  from assms(1) have "sublist (rev k) (rev zs @ rev ys)"
    by (metis rev_append sublist_rev)
  moreover from assms(2) have "set (rev zs) \<inter> set (rev k) = {}"
    by simp
  ultimately have "sublist (rev k) (rev ys)"
    by (rule sublist_drop_front)
  then show ?thesis
    by simp
qed

lemma trim_decomposition:
  "\<exists>front rear. s = front @ trim s @ rear \<and> list_all is_space front \<and> list_all is_space rear"
proof -
  let ?t = "dropWhile is_space s"
  have s: "s = takeWhile is_space s @ ?t"
    by simp
  have "?t = rev (takeWhile is_space (rev ?t) @ dropWhile is_space (rev ?t))"
    by (simp only: takeWhile_dropWhile_id rev_rev_ident)
  then have t: "?t = trim s @ rev (takeWhile is_space (rev ?t))"
    by (simp only: rev_append trim_def)
  have "s = takeWhile is_space s @ trim s @ rev (takeWhile is_space (rev ?t))"
    using s t by simp
  moreover have "list_all is_space (takeWhile is_space s)"
    by (auto simp: list_all_iff dest: set_takeWhileD)
  moreover have "list_all is_space (rev (takeWhile is_space (rev ?t)))"
    by (auto simp: list_all_iff dest: set_takeWhileD)
  ultimately show ?thesis
    by blast
qed

lemma lower_char_space: "is_space c \<Longrightarrow> lower_char c = c"
  unfolding is_space_def white_space_def
  by (simp add: lower_char_def upper_letters_def lower_letters_def) (elim disjE; simp)

lemma includes_lower_trim:
  assumes "str_includes (toLowerCase (trim s)) k"
  shows "str_includes (toLowerCase s) k"
proof -
  obtain front rear where s: "s = front @ trim s @ rear"
    using trim_decomposition by blast
  from assms have "sublist k (map lower_char (trim s))"
    by (simp add: str_includes_sublist toLowerCase_def)
  then have "sublist k (map lower_char front @ map lower_char (trim s) @ map lower_char rear)"
    by (metis sublist_appendI sublist_order.order_trans)
  then have "sublist k (map lower_char (front @ trim s @ rear))"
    by simp
  with s show ?thesis
    by (simp add: str_includes_sublist toLowerCase_def)
qed

lemma includes_lower_untrimmed:
  assumes "str_includes (toLowerCase s) k" "list_all (\<lambda>c. \<not> is_space c) k"
  shows "str_includes (toLowerCase (trim s)) k"
proof -
  obtain front rear where s: "s = front @ trim s @ rear"
    and sp: "list_all is_space front" "list_all is_space rear"
    using trim_decomposition by blast
  have keep: "map lower_char ws = ws" if "list_all is_space ws" for ws
    using that by (induction ws) (simp_all add: lower_char_space)
  have apart: "set ws \<inter> set k = {}" if "list_all is_space ws" for ws
    using that assms(2) by (auto simp: list_all_iff)
  have "sublist k (map lower_char (front @ trim s @ rear))"
    using assms(1) s by (simp add: str_includes_sublist toLowerCase_def)
  then have "sublist k (front @ map lower_char (trim s) @ rear)"
    by (simp add: keep sp)
  then have "sublist k (map lower_char (trim s) @ rear)"
    using apart [OF sp(1)] by (rule sublist_drop_front)
  then have "sublist k (map lower_char (trim s))"
    using apart [OF sp(2)] by (rule sublist_drop_back)
  then show ?thesis
    by (simp add: str_includes_sublist toLowerCase_def)
qed

lemma no_keyword_after_trim:
  assumes "\<not> list_ex (str_includes (toLowerCase s)) ks"
  shows "\<not> list_ex (str_includes (toLowerCase (trim s))) ks"
  using assms by (induction ks) (auto dest: includes_lower_trim)

lemma find_None_list_ex: "find P xs = None \<longleftrightarrow> \<not> list_ex P xs"
  by (induction xs) simp_all

lemma calm_has_no_space: "list_all (\<lambda>c. \<not> is_space c) ''calm''"
  by (simp add: is_space_def white_space_def)

lemma find_calm:
  "find (\<lambda>std. toLowerCase std = toLowerCase ''Calm'') STANDARD_EMOTIONS = Some ''Calm''"
  by (simp add: str_defs)

text \<open>
  C3. For every string whose trimmed value equals no taxonomy name when both are
  lower-cased, and whose lower-cased value contains \<open>calm\<close> and none of the keywords
  ranked above it (happ, joy, sad, depress, ang, mad, fear, scared, surpris, shock,
  disgust), \<open>normalizeEmotion\<close> returns Neutral; and for every string whose trimmed value
  equals \<open>Calm\<close> when both are lower-cased, it returns the taxonomy name Calm.
\<close>

theorem normalize_calm:
  "(\<not> list_ex (\<lambda>std. toLowerCase std = toLowerCase (trim s)) STANDARD_EMOTIONS
      \<and> str_includes (toLowerCase s) ''calm''
      \<and> \<not> list_ex (str_includes (toLowerCase s)) HIGHER_PRIORITY_KEYWORDS
    \<longrightarrow> normalizeEmotion s = ''Neutral'')
   \<and> (toLowerCase (trim s) = toLowerCase ''Calm'' \<longrightarrow> normalizeEmotion s = ''Calm'')"
proof (intro conjI impI)
  assume h: "\<not> list_ex (\<lambda>std. toLowerCase std = toLowerCase (trim s)) STANDARD_EMOTIONS
      \<and> str_includes (toLowerCase s) ''calm''
      \<and> \<not> list_ex (str_includes (toLowerCase s)) HIGHER_PRIORITY_KEYWORDS"
  then have none: "find (\<lambda>std. toLowerCase std = toLowerCase (trim s)) STANDARD_EMOTIONS = None"
    by (simp add: find_None_list_ex)
  from h have calm: "str_includes (toLowerCase (trim s)) ''calm''"
    by (intro includes_lower_untrimmed calm_has_no_space) simp
  from h have "\<not> list_ex (str_includes (toLowerCase (trim s))) HIGHER_PRIORITY_KEYWORDS"
    by (intro no_keyword_after_trim) simp
  then have higher:
    "\<not> str_includes (toLowerCase (trim s)) ''happ''" "\<not> str_includes (toLowerCase (trim s)) ''joy''"
    "\<not> str_includes (toLowerCase (trim s)) ''sad''" "\<not> str_includes (toLowerCase (trim s)) ''depress''"
    "\<not> str_includes (toLowerCase (trim s)) ''ang''" "\<not> str_includes (toLowerCase (trim s)) ''mad''"
    "\<not> str_includes (toLowerCase (trim s)) ''fear''" "\<not> str_includes (toLowerCase (trim s)) ''scared''"
    "\<not> str_includes (toLowerCase (trim s)) ''surpris''" "\<not> str_includes (toLowerCase (trim s)) ''shock''"
    "\<not> str_includes (toLowerCase (trim s)) ''disgust''"
    unfolding HIGHER_PRIORITY_KEYWORDS_def by (simp_all del: str_includes.simps)
  show "normalizeEmotion s = ''Neutral''"
    unfolding normalizeEmotion_def Let_def none
    by (simp only: option.case higher calm if_False if_True simp_thms)
next
  assume "toLowerCase (trim s) = toLowerCase ''Calm''"
  then show "normalizeEmotion s = ''Calm''"
    unfolding normalizeEmotion_def Let_def
    by (simp only: find_calm option.case)
qed

theorem normalize_calm_witness:
  "\<not> list_ex (\<lambda>std. toLowerCase std = toLowerCase (trim '' Calmness '')) STANDARD_EMOTIONS
   \<and> str_includes (toLowerCase '' Calmness '') ''calm''
   \<and> \<not> list_ex (str_includes (toLowerCase '' Calmness '')) HIGHER_PRIORITY_KEYWORDS
   \<and> normalizeEmotion '' Calmness '' = ''Neutral''
   \<and> toLowerCase (trim '' cALM '') = toLowerCase ''Calm''
   \<and> normalizeEmotion '' cALM '' = ''Calm''"
proof -
  have h1: "\<not> list_ex (\<lambda>std. toLowerCase std = toLowerCase (trim '' Calmness '')) STANDARD_EMOTIONS"
    by (simp add: str_defs)
  have h2: "str_includes (toLowerCase '' Calmness '') ''calm''"
    by (simp add: str_defs)
  have h3: "\<not> list_ex (str_includes (toLowerCase '' Calmness '')) HIGHER_PRIORITY_KEYWORDS"
    by (simp add: str_defs HIGHER_PRIORITY_KEYWORDS_def)
  have h4: "toLowerCase (trim '' cALM '') = toLowerCase ''Calm''"
    by (simp add: str_defs)
  from normalize_calm [of "'' Calmness ''"] h1 h2 h3 have r1: "normalizeEmotion '' Calmness '' = ''Neutral''"
    by (simp only: simp_thms)
  from normalize_calm [of "'' cALM ''"] h4 have r2: "normalizeEmotion '' cALM '' = ''Calm''"
    by (simp only: simp_thms)
  show ?thesis
    by (rule conjI [OF h1 conjI [OF h2 conjI [OF h3 conjI [OF r1 conjI [OF h4 r2]]]]])
qed

text \<open>
  The no-break space is trimmed like the space, and the letters of Latin-1 change case
  like those of ASCII: \<open>Calm\<close> between no-break spaces is Calm, U+00C9 followed by
  \<open>COLE\<close> is in lower case U+00E9 followed by \<open>cole\<close>, and the first character of a
  string that begins with U+00E9 or with the sharp s becomes U+00C9 or \<open>SS\<close>.
\<close>

lemma calm_between_no_break_spaces:
  "normalizeEmotion (CHR 0xA0 # ''Calm'' @ [CHR 0xA0]) = ''Calm''"
  by (simp add: normalizeEmotion_def toLowerCase_def lower_char_ascii trim_def is_space_def
      white_space_def STANDARD_EMOTIONS_def)

lemma trim_no_break_space: "trim (CHR 0xA0 # '' Calm'' @ [CHR 0xA0, CHR 0x0A]) = ''Calm''"
  by (simp add: trim_def is_space_def white_space_def)

lemma lower_case_latin: "toLowerCase (CHR 0xC9 # ''COLE'') = CHR 0xE9 # ''cole''"
  by (simp add: toLowerCase_def lower_char_def upper_letters_def lower_letters_def)

lemma capitalize_latin:
  "capitalize (CHR 0xE9 # ''cole'') = CHR 0xC9 # ''cole''"
  "capitalize (CHR 0xDF # ''x'') = ''SSx''"
  by (simp_all add: upper_char_def upper_letters_def lower_letters_def)

section \<open>Which labels a result can carry\<close>

lemma channel_votes_labels: "map fst (channel_votes input a b c) = channel_labels input"
  by (simp add: channel_votes_def channel_labels_def channel_strings_def
      split: option.splits)



















section \<open>The labels of the multi-frame detection\<close>







section \<open>What a result's label can be\<close>







section \<open>The confidence of the weighted fusion\<close>

lemma weighted_confidence_of_winner:
  assumes ok: "list_all (\<lambda>k. k \<notin> set OBJECT_PROTOTYPE_KEYS) (map fst (weighted_votes input))"
      and ne: "weighted_votes input \<noteq> []"
  shows "\<exists>r. weightedVotingFusion input = Inr r
           \<and> finalEmotion r \<in> set (map fst (weighted_votes input))
           \<and> fusedConfidence r = min (accumulated (weighted_votes input) (finalEmotion r)) 1
           \<and> (\<forall>l\<in>set (map fst (weighted_votes input)).
                 accumulated (weighted_votes input) l
                   \<le> accumulated (weighted_votes input) (finalEmotion r))
           \<and> breakdown r = expected_breakdown input"
proof -
  let ?L = "weighted_votes input"
  let ?votes = "foldl bump [] ?L"
  from weighted_fusion_result [OF ok ne] obtain m where
    fh: "first_highest m (Object_entries ?votes)" and
    res: "weightedVotingFusion input =
               Inr \<lparr>finalEmotion = fst m, fusedConfidence = min (snd m) 1,
                    breakdown = expected_breakdown input, fusionMethod = ''weighted-voting''\<rparr>"
    by blast
  have np: "list_all (\<lambda>v. fst v \<noteq> ''__proto__'') ?L"
    using non_prototype_keys [OF ok] by (simp add: list_all_iff)
  have dist: "distinct (map fst ?votes)" by (rule votes_distinct)
  from fh have mem: "m \<in> set ?votes"
    by (auto dest: first_highest_mem simp: set_Object_entries)
  with dist have val: "map_of ?votes (fst m) = Some (snd m)" by (rule in_object_value)
  have keys: "set (map fst ?votes) = set (map fst ?L)"
    unfolding keys_foldl_bump using non_prototype_keys [OF ok]
    by (simp add: foldl_add_key_plain)
  from mem have "fst m \<in> set (map fst ?votes)"
    by simp
  with keys have in_labels: "fst m \<in> set (map fst ?L)"
    by (simp only:)
  then have "map_of ?votes (fst m) = Some (accumulated ?L (fst m))"
    by (simp add: map_of_foldl_bump [OF np])
  with val have snd_m: "snd m = accumulated ?L (fst m)"
    by simp
  have le: "accumulated ?L l \<le> accumulated ?L (fst m)" if "l \<in> set (map fst ?L)" for l
  proof -
    from that have "map_of ?votes l = Some (accumulated ?L l)"
      by (simp add: map_of_foldl_bump [OF np])
    then have "(l, accumulated ?L l) \<in> set (Object_entries ?votes)"
      by (simp add: map_of_SomeD set_Object_entries)
    from first_highest_max [OF fh this] show ?thesis
      by (simp add: snd_m)
  qed
  let ?r = "\<lparr>finalEmotion = fst m, fusedConfidence = min (snd m) 1,
              breakdown = expected_breakdown input, fusionMethod = ''weighted-voting''\<rparr>"
  have sel: "finalEmotion ?r = fst m" "fusedConfidence ?r = min (snd m) 1"
    "breakdown ?r = expected_breakdown input"
    by simp_all
  show ?thesis
  proof (intro exI [of _ ?r] conjI ballI; (unfold sel)?)
    show "weightedVotingFusion input = Inr ?r" by (rule res)
    show "fst m \<in> set (map fst ?L)" by (rule in_labels)
    show "min (snd m) 1 = min (accumulated ?L (fst m)) 1" by (simp only: snd_m)
    show "accumulated ?L l \<le> accumulated ?L (fst m)" if "l \<in> set (map fst ?L)" for l
      using that by (rule le)
    show "expected_breakdown input = expected_breakdown input" ..
  qed
qed

lemma normalize_proto: "normalizeEmotion ''__proto__'' = ''__proto__''"
  by (simp add: normalizeEmotion_def str_defs)

lemma extract_proto: "extractEmotionFromText ''__proto__'' = None"
  by (simp add: extractEmotionFromText_def str_defs)

text \<open>
  C2. The weighted fusion is meant to add 0.5 or 0.3 for the facial channel (0.3 at
  confidence 0.6 exactly), 0.3 for the voice channel and 0.2 for the text channel to the
  channel's normalised label, and to return the winner's accumulated weight, at most 1, as
  confidence; \<open>weighted_confidence_of_winner\<close> shows that it does whenever no label names a
  member of \<open>Object.prototype\<close>. For the voice string \<open>__proto__\<close> the assignment to the
  accumulator is ignored, no weight is added, and the result is the fallback Neutral
  with confidence 0.5, although a channel is present.
\<close>

theorem weighted_proto_voice:
  "weightedVotingFusion \<lparr>facialEmotion = None, voiceEmotion = Some ''__proto__'', textEmotion = None\<rparr>
     = Inr \<lparr>finalEmotion = ''Neutral'', fusedConfidence = 0.5,
            breakdown = \<lparr>bd_facial = None, bd_voice = Some ''__proto__'', bd_text = None\<rparr>,
            fusionMethod = ''weighted-voting''\<rparr>"
  by (simp add: fusion_defs obj_defs normalize_proto extract_proto)

section \<open>A single channel\<close>

lemma single_entry: "Object_entries [(l, w)] = [(l, w)]"
  by (simp add: Object_entries_def)

lemma single_vote:
  assumes "map fst votes = [l]" "l \<notin> set OBJECT_PROTOTYPE_KEYS"
  shows "foldl bump [] votes = [(l, snd (hd votes))]"
proof -
  from assms(1) obtain w where v: "votes = [(l, w)]"
    by (cases votes) auto
  have "l \<noteq> ''__proto__''"
  proof
    assume "l = ''__proto__''"
    with assms(2) proto_is_prototype_key show False
      by simp
  qed
  then show ?thesis
    by (simp add: v bump_def obj_set_def)
qed

lemma single_channel:
  assumes one: "channel_labels input = [l]" and ok: "l \<notin> set OBJECT_PROTOTYPE_KEYS"
  shows "fuseEmotions input ''weighted''
           = Inr \<lparr>finalEmotion = l, fusedConfidence = min (snd (hd (weighted_votes input))) 1,
                  breakdown = expected_breakdown input, fusionMethod = ''weighted-voting''\<rparr>"
    and "fuseEmotions input ''majority''
           = Inr \<lparr>finalEmotion = l, fusedConfidence = 1,
                  breakdown = expected_breakdown input, fusionMethod = ''majority-voting''\<rparr>"
proof -
  have labels: "map fst (channel_votes input a b c) = [l]" for a b c
    by (simp only: channel_votes_labels one)
  have okv: "list_all (\<lambda>v. fst v \<notin> set OBJECT_PROTOTYPE_KEYS) (channel_votes input a b c)" for a b c
    using labels [of a b c] ok by (cases "channel_votes input a b c") auto
  have cast: "cast_votes input a b c
      = Inr ([(l, snd (hd (channel_votes input a b c)))], expected_breakdown input)" for a b c
    by (simp only: cast_votes_eq [OF okv] single_vote [OF labels ok])
  have w: "cast_votes input (facialWeight input) 0.3 0.2
      = Inr ([(l, snd (hd (weighted_votes input)))], expected_breakdown input)"
    unfolding weighted_votes_def by (rule cast)
  show "fuseEmotions input ''weighted''
           = Inr \<lparr>finalEmotion = l, fusedConfidence = min (snd (hd (weighted_votes input))) 1,
                  breakdown = expected_breakdown input, fusionMethod = ''weighted-voting''\<rparr>"
    unfolding fuseEmotions_def weightedVotingFusion_def w
    by (simp add: single_entry sort_descending_def)
  from labels [of 1 1 1] have "snd (hd (channel_votes input 1 1 1)) = 1"
    by (auto simp: channel_votes_def split: option.splits if_splits)
  with cast [of 1 1 1] have m: "cast_votes input 1 1 1 = Inr ([(l, 1)], expected_breakdown input)"
    by simp
  show "fuseEmotions input ''majority''
           = Inr \<lparr>finalEmotion = l, fusedConfidence = 1,
                  breakdown = expected_breakdown input, fusionMethod = ''majority-voting''\<rparr>"
    unfolding fuseEmotions_def majorityVotingFusion_def m
    by (simp add: single_entry sort_descending_def Object_values_def)
qed

text \<open>
  C9. With exactly one channel present both strategies are meant to return that
  channel's normalised label, a breakdown with that channel's key only, and under the
  majority strategy the confidence 1; \<open>single_channel\<close> shows that they do whenever the
  label names no member of \<open>Object.prototype\<close>. For the sole voice string \<open>__proto__\<close> the
  vote is lost: the majority fusion returns Neutral with confidence 0.5.
\<close>

theorem majority_proto_voice:
  "channel_labels \<lparr>facialEmotion = None, voiceEmotion = Some ''__proto__'', textEmotion = None\<rparr>
     = [''__proto__'']
   \<and> fuseEmotions \<lparr>facialEmotion = None, voiceEmotion = Some ''__proto__'', textEmotion = None\<rparr> ''majority''
     = Inr \<lparr>finalEmotion = ''Neutral'', fusedConfidence = 0.5,
            breakdown = \<lparr>bd_facial = None, bd_voice = Some ''__proto__'', bd_text = None\<rparr>,
            fusionMethod = ''majority-voting''\<rparr>"
  by (simp add: channel_labels_def channel_strings_def fusion_defs obj_defs normalize_proto extract_proto)

end
